theory Spec2Isabelle
  imports Main "HOL-Library.Word"
begin

section \<open>The threaded HTTP server: data model\<close>

text \<open>
  The development embeds \<^verbatim>\<open>src/c++/apps/echo/dmtr_http_server_threaded.cc\<close>.
  Every call into the datapath, the C library or the thread library is recorded, in
  program order, in a list of calls; what such a call returns is an input of the
  model. Logging (\<^verbatim>\<open>printf\<close>, \<^verbatim>\<open>log_debug\<close>, ...) and the signal handling of
  \<^verbatim>\<open>main\<close> are not recorded. The submissions \<^verbatim>\<open>dmtr_accept\<close>, \<^verbatim>\<open>dmtr_pop\<close> and
  \<^verbatim>\<open>dmtr_push\<close>, whose return values the program ignores, are taken to succeed and to
  yield a new token. A failed \<^verbatim>\<open>assert\<close>, an index outside a vector, a division by zero,
  the overflow of a signed counter and the use of a null pointer end the thread: they are
  the failures of the model.

  A C \<^verbatim>\<open>int\<close> queue descriptor and a \<^verbatim>\<open>uint32_t\<close> segment length are both
  32-bit words; converting one to the other keeps the bits, so storing a descriptor in
  a length field is an assignment between values of the type \<open>32 word\<close>.
\<close>

type_synonym qd = "32 word"

text \<open>A pointer is null or the address of a buffer, carried with the bytes stored there.\<close>

datatype ptr = Null | Ptr nat string

record sgaseg =
  sgaseg_buf :: ptr
  sgaseg_len :: "32 word"

text \<open>
  \<^verbatim>\<open>dmtr_sgarray_t\<close> (declared in \<^verbatim>\<open>dmtr/types.h\<close>): the owning allocation, the
  segment count and the segments; the program reads and writes \<^verbatim>\<open>sga_segs[0]\<close> and
  \<^verbatim>\<open>sga_segs[1]\<close> only.
\<close>

record sgarray =
  sga_buf :: ptr
  sga_numsegs :: "32 word"
  sga_segs0 :: sgaseg
  sga_segs1 :: sgaseg

datatype opcode = DMTR_OPC_INVALID | DMTR_OPC_PUSH | DMTR_OPC_POP | DMTR_OPC_ACCEPT | DMTR_OPC_CONNECT

text \<open>
  A completion token names one submitted operation. The datapath hands out a new token at
  every submission; the model numbers them and remembers the operation and the descriptor
  the token was issued for.
\<close>

datatype token = Token nat opcode qd

fun token_opcode :: "token \<Rightarrow> opcode" where
  "token_opcode (Token n opc q) = opc"

fun token_qd :: "token \<Rightarrow> qd" where
  "token_qd (Token n opc q) = q"

datatype parser_status = REQ_COMPLETE | REQ_ERROR | REQ_INCOMPLETE

datatype req_type = REGEX_REQ | FILE_REQ

datatype failure = AssertionFailed | OutOfRange | DivisionByZero | SignedOverflow | NullDereference

text \<open>\<^verbatim>\<open>class Worker\<close>: the queues of a compute worker and its thread.\<close>

record Worker =
  in_qfd :: qd
  out_qfd :: qd
  me :: nat

datatype tcp_filters = RR | HTTP_REQ_TYPE | ONE_TO_ONE

record sockaddr_in =
  sin_addr :: "32 word"
  sin_port :: "16 word"

text \<open>
  \<^verbatim>\<open>struct tcp_worker_args\<close>; its members \<^verbatim>\<open>filter\<close> and \<^verbatim>\<open>me\<close> are
  \<open>tcp_filter\<close> and \<open>tcp_me\<close> here. \<^verbatim>\<open>filter_f\<close> fails where the function it holds
  would use a null pointer.
\<close>

record tcp_worker_args =
  tcp_filter :: tcp_filters
  filter_f :: "sgarray \<Rightarrow> failure + int"
  saddr :: sockaddr_in
  whoami :: "8 word"
  tcp_me :: nat
  split :: bool

text \<open>
  What the program takes from its collaborators: the request parser and the request
  classifier (\<^verbatim>\<open>request_parser.h\<close>, \<^verbatim>\<open>httpops.hh\<close>), the two response builders
  (lines 87-162, which chain calls into \<^verbatim>\<open>httpops.hh\<close> and the file system and hand back
  the response buffer, null when none could be built, and its size), the
  fixed bad-request header, the allocator, the contents of an uninitialised
  \<^verbatim>\<open>dmtr_sgarray_t\<close> local, and the results of \<^verbatim>\<open>dmtr_init\<close> and of the successive
  \<^verbatim>\<open>dmtr_queue\<close> calls (status and new descriptor), and the options of
  \<^verbatim>\<open>common.hh\<close>.
\<close>

record ext =
  parse_http :: "ptr \<Rightarrow> nat \<Rightarrow> parser_status \<times> string"
  get_request_type :: "string \<Rightarrow> req_type"
  req_type_code :: "req_type \<Rightarrow> int"
  regex_work :: "string \<Rightarrow> ptr \<times> int"
  file_work :: "string \<Rightarrow> ptr \<times> int"
  BAD_REQUEST_HEADER :: string
  malloc :: "nat \<Rightarrow> ptr"
  uninit_sga :: sgarray
  dmtr_init :: int
  dmtr_queue :: "nat \<Rightarrow> int \<times> qd"
  server_ip_addr :: "32 word option"
  port :: "16 word"

section \<open>The supervisor\<close>

datatype setup_call =
    PthreadCreateTcp tcp_worker_args
  | PthreadCreateHttp Worker
  | PinThread nat "16 word"
  | PinSelf "16 word"
  | DmtrQueue nat

text \<open>
  The globals \<^verbatim>\<open>http_workers\<close> and \<^verbatim>\<open>worker_threads\<close>, and the calls made so
  far. A thread is named by the number of threads created before it.
\<close>

record setup_state =
  http_workers :: "Worker list"
  worker_threads :: "nat list"
  setup_calls :: "setup_call list"

definition setup_init :: setup_state where
  "setup_init = \<lparr>http_workers = [], worker_threads = [], setup_calls = []\<rparr>"

text \<open>
  \<^verbatim>\<open>filter_http_req\<close> classifies the bytes at \<^verbatim>\<open>sga_buf\<close>; the enumerator's integer
  value is what the caller reduces modulo the number of workers.
\<close>

definition filter_http_req :: "ext \<Rightarrow> sgarray \<Rightarrow> failure + int" where
  "filter_http_req X sga =
     (case sga_buf sga of
        Null \<Rightarrow> Inl NullDereference
      | Ptr a bs \<Rightarrow> Inr (req_type_code X (get_request_type X bs)))"

text \<open>
  The address a connection worker listens on (lines 499-517), kept here in host byte
  order: \<^verbatim>\<open>INADDR_ANY\<close> when no address is configured, else the base address plus
  \<open>2 * i\<close>.
\<close>

definition worker_saddr :: "ext \<Rightarrow> nat \<Rightarrow> sockaddr_in" where
  "worker_saddr X i =
     \<lparr>sin_addr = (case server_ip_addr X of None \<Rightarrow> 0 | Some a \<Rightarrow> a + of_nat (i * 2)),
      sin_port = port X\<rparr>"

text \<open>
  The first loop of \<^verbatim>\<open>work_setup\<close>, from iteration \<open>i\<close> on. The result is
  \<open>Some c\<close> with the state reached when \<^verbatim>\<open>exit(c)\<close> was called, \<open>None\<close> when the loop
  ran to its end.
\<close>

function create_tcp_workers ::
  "ext \<Rightarrow> 16 word \<Rightarrow> 16 word \<Rightarrow> bool \<Rightarrow> nat \<Rightarrow> setup_state \<Rightarrow> int option \<times> setup_state" where
  "create_tcp_workers X n_tcp_workers n_http_workers splt i st =
     (if i < unat n_tcp_workers then
        (let tcp_args = \<lparr>tcp_filter = ONE_TO_ONE, filter_f = filter_http_req X,
                          saddr = worker_saddr X i, whoami = of_nat i,
                          tcp_me = length (worker_threads st), split = splt\<rparr>
         in if tcp_filter tcp_args = ONE_TO_ONE \<and> unat n_tcp_workers < unat n_http_workers
            then (Some 1, st)
            else create_tcp_workers X n_tcp_workers n_http_workers splt (Suc i)
                   (st\<lparr>worker_threads := worker_threads st @ [tcp_me tcp_args],
                       setup_calls := setup_calls st @
                         [PthreadCreateTcp tcp_args, PinThread (tcp_me tcp_args) (of_nat (i + 1))]\<rparr>))
      else (None, st))"
  by pat_completeness auto
termination
  by (relation "measure (\<lambda>(X, n, m, s, i, st). unat n - i)") auto

declare create_tcp_workers.simps [simp del]

text \<open>
  The second loop, from iteration \<open>i\<close> on. \<^verbatim>\<open>DMTR_OK\<close> (\<^verbatim>\<open>dmtr/annot.h\<close>) makes
  \<^verbatim>\<open>work_setup\<close> return the status of a failed call: the result is \<open>Some status\<close> then.
\<close>

function create_http_workers ::
  "ext \<Rightarrow> 16 word \<Rightarrow> 16 word \<Rightarrow> nat \<Rightarrow> setup_state \<Rightarrow> int option \<times> setup_state" where
  "create_http_workers X n_tcp_workers n_http_workers i st =
     (if i < unat n_http_workers then
        (let (st_in, in_q) = dmtr_queue X (2 * i);
             st1 = st\<lparr>setup_calls := setup_calls st @ [DmtrQueue (2 * i)]\<rparr>
         in if st_in \<noteq> 0 then (Some st_in, st1)
            else
              (let (st_out, out_q) = dmtr_queue X (2 * i + 1);
                   st2 = st1\<lparr>setup_calls := setup_calls st1 @ [DmtrQueue (2 * i + 1)]\<rparr>
               in if st_out \<noteq> 0 then (Some st_out, st2)
                  else
                    (let worker = \<lparr>in_qfd = in_q, out_qfd = out_q, me = length (worker_threads st2)\<rparr>
                     in create_http_workers X n_tcp_workers n_http_workers (Suc i)
                          (st2\<lparr>http_workers := http_workers st2 @ [worker],
                               worker_threads := worker_threads st2 @ [me worker],
                               setup_calls := setup_calls st2 @
                                 [PthreadCreateHttp worker,
                                  PinThread (me worker) (of_nat (unat n_tcp_workers + i + 1))]\<rparr>))))
      else (None, st))"
  by pat_completeness auto
termination
  by (relation "measure (\<lambda>(X, n, m, i, st). unat m - i)") auto

declare create_http_workers.simps [simp del]

datatype outcome = Exited int | Returned int | Joining

text \<open>\<^verbatim>\<open>work_setup\<close>, started in the state \<open>st\<close> of the globals.\<close>

definition work_setup :: "ext \<Rightarrow> 16 word \<Rightarrow> 16 word \<Rightarrow> bool \<Rightarrow> setup_state \<Rightarrow> outcome \<times> setup_state" where
  "work_setup X n_tcp_workers n_http_workers splt st =
     (case create_tcp_workers X n_tcp_workers n_http_workers splt 0 st of
        (Some c, st1) \<Rightarrow> (Exited c, st1)
      | (None, st1) \<Rightarrow>
          if \<not> splt then (Returned 1, st1)
          else (case create_http_workers X n_tcp_workers n_http_workers 0 st1 of
                  (Some e, st2) \<Rightarrow> (Returned e, st2)
                | (None, st2) \<Rightarrow> (Returned 1, st2)))"

text \<open>
  \<^verbatim>\<open>main\<close>, from the parsed worker counts on: \<^verbatim>\<open>DMTR_OK(dmtr_init ...)\<close>, the pinning
  of the main thread, \<^verbatim>\<open>work_setup\<close> with the constant \<^verbatim>\<open>false\<close>, then the joins.
  A worker thread never returns, so \<^verbatim>\<open>main\<close> returns 0 only when there is no thread
  to join; otherwise it stays in \<^verbatim>\<open>pthread_join\<close>.
\<close>

definition main :: "ext \<Rightarrow> 16 word \<Rightarrow> 16 word \<Rightarrow> outcome \<times> setup_state" where
  "main X n_http_workers n_tcp_workers =
     (if dmtr_init X \<noteq> 0 then (Returned (dmtr_init X), setup_init)
      else
        (case work_setup X n_tcp_workers n_http_workers False
                (setup_init\<lparr>setup_calls := [PinSelf 0]\<rparr>) of
           (Exited c, st) \<Rightarrow> (Exited c, st)
         | (Returned r, st) \<Rightarrow> (if worker_threads st = [] then (Returned 0, st) else (Joining, st))
         | (Joining, st) \<Rightarrow> (Joining, st)))"

section \<open>The connection worker\<close>

text \<open>
  What a wait returns: \<^verbatim>\<open>dmtr_qresult_t\<close> (the two members of the union
  \<^verbatim>\<open>qr_value\<close> are kept side by side), and for \<^verbatim>\<open>dmtr_wait_any\<close> also the status and
  the index of the ready token.
\<close>

record qresult =
  qr_opcode :: opcode
  qr_qd :: qd
  qr_sga :: sgarray
  qr_ares_qd :: qd

record completion = qresult +
  status :: int
  idx :: int

datatype call =
    DmtrSocket qd
  | LqdsPushBack qd
  | DmtrBind qd sockaddr_in
  | DmtrListen qd int
  | DmtrAccept token qd
  | DmtrPop token qd
  | DmtrPush token qd sgarray
  | DmtrWait token
  | DmtrWaitAny "token list"
  | DmtrClose qd
  | Malloc nat
  | Free ptr
  | CleanState

text \<open>
  The locals of \<^verbatim>\<open>tcp_work\<close> that live across iterations, and the number of tokens
  the datapath has issued to this thread.
\<close>

record tcp_state =
  tokens :: "token list"
  http_q_pending :: "qd list"
  num_rcvd :: int
  lqd :: qd
  issued :: nat

definition ECONNABORTED :: int where
  "ECONNABORTED = 103"

definition ECONNRESET :: int where
  "ECONNRESET = 104"

definition INT_MAX :: int where
  "INT_MAX = 2147483647"

text \<open>The part of \<^verbatim>\<open>tcp_work\<close> before the loop; \<open>q\<close> is what \<^verbatim>\<open>dmtr_socket\<close> returned.\<close>

definition tcp_work_setup :: "tcp_worker_args \<Rightarrow> qd \<Rightarrow> tcp_state \<times> call list" where
  "tcp_work_setup args q =
     (let token = Token 0 DMTR_OPC_ACCEPT q
      in (\<lparr>tokens = [token], http_q_pending = [], num_rcvd = 0, lqd = q, issued = 1\<rparr>,
          [DmtrSocket q, LqdsPushBack q, DmtrBind q (saddr args), DmtrListen q 10,
           DmtrAccept token q]))"

text \<open>\<^verbatim>\<open>tokens.erase(tokens.begin()+idx)\<close>; an index outside the vector is undefined behaviour.\<close>

definition erase_at :: "'a list \<Rightarrow> int \<Rightarrow> failure + 'a list" where
  "erase_at xs i =
     (if 0 \<le> i \<and> i < int (length xs) then Inr (take (nat i) xs @ drop (Suc (nat i)) xs)
      else Inl OutOfRange)"

text \<open>
  The conversions of \<^verbatim>\<open>num_rcvd % http_workers.size()\<close>: the \<^verbatim>\<open>int\<close> operand becomes
  a 64-bit \<^verbatim>\<open>size_t\<close>, the remainder is stored in an \<^verbatim>\<open>int\<close>.
\<close>

definition size_t_of_int :: "int \<Rightarrow> int" where
  "size_t_of_int x = x mod 2 ^ 64"

definition int_of_size_t :: "int \<Rightarrow> int" where
  "int_of_size_t x = (let m = x mod 2 ^ 32 in if m < 2 ^ 31 then m else m - 2 ^ 32)"

text \<open>The choice of \<^verbatim>\<open>worker_idx\<close> (lines 332-342); \<open>n\<close> is \<^verbatim>\<open>http_workers.size()\<close>.\<close>

definition choose_worker :: "tcp_worker_args \<Rightarrow> nat \<Rightarrow> int \<Rightarrow> sgarray \<Rightarrow> failure + int" where
  "choose_worker args n rcvd sga =
     (if tcp_filter args = RR then
        (if n = 0 then Inl DivisionByZero
         else Inr (int_of_size_t (size_t_of_int rcvd mod int n)))
      else if tcp_filter args = HTTP_REQ_TYPE then
        (case filter_f args sga of
           Inl e \<Rightarrow> Inl e
         | Inr v \<Rightarrow>
             if n = 0 then Inl DivisionByZero
             else Inr (int_of_size_t (size_t_of_int v mod int n)))
      else if tcp_filter args = ONE_TO_ONE then Inr (uint (whoami args))
      else
        (if n = 0 then Inl DivisionByZero
         else Inr (int_of_size_t (size_t_of_int rcvd mod int n))))"

text \<open>\<^verbatim>\<open>http_workers[worker_idx]\<close>; an index outside the vector is undefined behaviour.\<close>

definition worker_at :: "Worker list \<Rightarrow> int \<Rightarrow> failure + Worker" where
  "worker_at ws i =
     (if 0 \<le> i \<and> i < int (length ws) then Inr (ws ! nat i) else Inl OutOfRange)"

text \<open>Split mode, a new request (lines 331-360).\<close>

definition forward_request ::
  "tcp_worker_args \<Rightarrow> Worker list \<Rightarrow> tcp_state \<Rightarrow> completion \<Rightarrow> failure + tcp_state \<times> call list" where
  "forward_request args hw s c =
     (case choose_worker args (length hw) (num_rcvd s) (qr_sga c) of
        Inl e \<Rightarrow> Inl e
      | Inr worker_idx \<Rightarrow>
          (case worker_at hw worker_idx of
             Inl e \<Rightarrow> Inl e
           | Inr w \<Rightarrow>
               (let sga = (qr_sga c)\<lparr>sga_numsegs := 2,
                            sga_segs1 := (sga_segs1 (qr_sga c))\<lparr>sgaseg_len := qr_qd c\<rparr>\<rparr>;
                    t_push = Token (issued s) DMTR_OPC_PUSH (in_qfd w);
                    t_pop = Token (issued s + 1) DMTR_OPC_POP (out_qfd w)
                in Inr (s\<lparr>tokens := tokens s @ [t_pop],
                          http_q_pending := http_q_pending s @ [out_qfd w],
                          issued := issued s + 2\<rparr>,
                        [DmtrPush t_push (in_qfd w) sga, DmtrWait t_push,
                         DmtrPop t_pop (out_qfd w)]))))"

text \<open>The two switches on the request type (lines 230-237 and 400-407).\<close>

definition build_response :: "ext \<Rightarrow> string \<Rightarrow> ptr \<times> int" where
  "build_response X url =
     (case get_request_type X url of
        REGEX_REQ \<Rightarrow> regex_work X url
      | FILE_REQ \<Rightarrow> file_work X url)"

text \<open>
  \<^verbatim>\<open>malloc(strlen(BAD_REQUEST_HEADER) + 1)\<close> followed by the \<^verbatim>\<open>snprintf\<close> of the header
  into it: the segment that holds the header, or a failure when the allocation is null.
\<close>

definition bad_request_seg :: "ext \<Rightarrow> failure + sgaseg" where
  "bad_request_seg X =
     (case malloc X (length (BAD_REQUEST_HEADER X) + 1) of
        Null \<Rightarrow> Inl NullDereference
      | Ptr a bs \<Rightarrow>
          Inr \<lparr>sgaseg_buf = Ptr a (BAD_REQUEST_HEADER X),
               sgaseg_len = of_nat (length (BAD_REQUEST_HEADER X))\<rparr>)"

text \<open>Joined mode, a new request (lines 362-432).\<close>

definition serve_request ::
  "ext \<Rightarrow> tcp_state \<Rightarrow> completion \<Rightarrow> failure + tcp_state \<times> call list" where
  "serve_request X s c =
     (let req_size = unat (sgaseg_len (sga_segs0 (qr_sga c)));
          req = sgaseg_buf (sga_segs0 (qr_sga c));
          (pstatus, url) = parse_http X req req_size
      in case pstatus of
           REQ_ERROR \<Rightarrow>
             (case bad_request_seg X of
                Inl e \<Rightarrow> Inl e
              | Inr seg \<Rightarrow>
                  (let resp_sga = (uninit_sga X)\<lparr>sga_numsegs := 1, sga_segs0 := seg\<rparr>;
                       token = Token (issued s) DMTR_OPC_PUSH (qr_qd c)
                   in Inr (s\<lparr>issued := issued s + 1\<rparr>,
                           [Free (sga_buf (qr_sga c)),
                            Malloc (length (BAD_REQUEST_HEADER X) + 1),
                            DmtrPush token (qr_qd c) resp_sga, DmtrWait token, CleanState])))
         | REQ_INCOMPLETE \<Rightarrow> Inr (s, [CleanState])
         | REQ_COMPLETE \<Rightarrow>
             (let (response, response_size) = build_response X url
              in if response = Null then Inr (s, [CleanState])
                 else
                   (let resp_sga = (uninit_sga X)\<lparr>sga_numsegs := 1,
                          sga_segs0 := \<lparr>sgaseg_buf = response, sgaseg_len = of_int response_size\<rparr>\<rparr>;
                        t_push = Token (issued s) DMTR_OPC_PUSH (qr_qd c);
                        t_pop = Token (issued s + 1) DMTR_OPC_POP (qr_qd c)
                    in Inr (s\<lparr>tokens := tokens s @ [t_pop], issued := issued s + 2\<rparr>,
                            [Free (sga_buf (qr_sga c)), DmtrPush t_push (qr_qd c) resp_sga,
                             DmtrWait t_push, Free response, CleanState,
                             DmtrPop t_pop (qr_qd c)]))))"

text \<open>A reply of a compute worker (lines 440-452).\<close>

definition forward_reply :: "tcp_state \<Rightarrow> completion \<Rightarrow> tcp_state \<times> call list" where
  "forward_reply s c =
     (let client_qfd = sgaseg_len (sga_segs1 (qr_sga c));
          t_push = Token (issued s) DMTR_OPC_PUSH client_qfd;
          t_pop = Token (issued s + 1) DMTR_OPC_POP client_qfd
      in (s\<lparr>http_q_pending := remove1 (qr_qd c) (http_q_pending s),
            tokens := tokens s @ [t_pop], issued := issued s + 2\<rparr>,
          [DmtrPush t_push client_qfd (qr_sga c), DmtrWait t_push,
           Free (sgaseg_buf (sga_segs0 (qr_sga c))), DmtrPop t_pop client_qfd]))"

text \<open>An accept completion on the listening descriptor (lines 297-306).\<close>

definition accept_connection :: "tcp_state \<Rightarrow> completion \<Rightarrow> failure + tcp_state \<times> call list" where
  "accept_connection s c =
     (if qr_opcode c \<noteq> DMTR_OPC_ACCEPT then Inl AssertionFailed
      else
        (case erase_at (tokens s) (idx c) of
           Inl e \<Rightarrow> Inl e
         | Inr ts \<Rightarrow>
             (let t_pop = Token (issued s) DMTR_OPC_POP (qr_ares_qd c);
                  t_accept = Token (issued s + 1) DMTR_OPC_ACCEPT (lqd s)
              in Inr (s\<lparr>tokens := ts @ [t_pop, t_accept], issued := issued s + 2\<rparr>,
                      [DmtrPop t_pop (qr_ares_qd c), DmtrAccept t_accept (lqd s)]))))"

text \<open>A pop completion (lines 308-453).\<close>

definition pop_completion ::
  "ext \<Rightarrow> tcp_worker_args \<Rightarrow> Worker list \<Rightarrow> tcp_state \<Rightarrow> completion \<Rightarrow> failure + tcp_state \<times> call list" where
  "pop_completion X args hw s c =
     (if qr_opcode c \<noteq> DMTR_OPC_POP then Inl AssertionFailed
      else if \<not> sga_numsegs (qr_sga c) \<le> 2 then Inl AssertionFailed
      else
        (case erase_at (tokens s) (idx c) of
           Inl e \<Rightarrow> Inl e
         | Inr ts \<Rightarrow>
             if qr_qd c \<notin> set (http_q_pending s) then
               (if num_rcvd s = INT_MAX then Inl SignedOverflow
                else
                  (let s1 = s\<lparr>tokens := ts, num_rcvd := num_rcvd s + 1\<rparr>
                   in if split args then forward_request args hw s1 c
                      else serve_request X s1 c))
             else Inr (forward_reply (s\<lparr>tokens := ts\<rparr>) c)))"

text \<open>A completion with a non-zero status (lines 456-458).\<close>

definition failed_completion :: "tcp_state \<Rightarrow> completion \<Rightarrow> failure + tcp_state \<times> call list" where
  "failed_completion s c =
     (if \<not> (status c = ECONNRESET \<or> status c = ECONNABORTED) then Inl AssertionFailed
      else
        (case erase_at (tokens s) (idx c) of
           Inl e \<Rightarrow> Inl e
         | Inr ts \<Rightarrow> Inr (s\<lparr>tokens := ts\<rparr>, [DmtrClose (qr_qd c)])))"

text \<open>
  One iteration of the loop of \<^verbatim>\<open>tcp_work\<close>: the wait on the token set, which returns
  the completion \<open>c\<close>, and the dispatch. \<open>hw\<close> is the global \<^verbatim>\<open>http_workers\<close>.
\<close>

definition tcp_work_step ::
  "ext \<Rightarrow> tcp_worker_args \<Rightarrow> Worker list \<Rightarrow> tcp_state \<Rightarrow> completion \<Rightarrow> failure + tcp_state \<times> call list" where
  "tcp_work_step X args hw s c =
     (case (if status c = 0 then
              (if qr_qd c = lqd s then accept_connection s c
               else pop_completion X args hw s c)
            else failed_completion s c) of
        Inl e \<Rightarrow> Inl e
      | Inr (s', calls) \<Rightarrow> Inr (s', DmtrWaitAny (tokens s) # calls))"

text \<open>
  The loop never ends by itself: it is run here over the completions the datapath
  delivers, one per iteration, and stops at the first failure.
\<close>

fun tcp_work_loop ::
  "ext \<Rightarrow> tcp_worker_args \<Rightarrow> Worker list \<Rightarrow> tcp_state \<Rightarrow> completion list \<Rightarrow> failure + tcp_state \<times> call list" where
  "tcp_work_loop X args hw s [] = Inr (s, [])"
| "tcp_work_loop X args hw s (c # cs) =
     (case tcp_work_step X args hw s c of
        Inl e \<Rightarrow> Inl e
      | Inr (s', calls) \<Rightarrow>
          (case tcp_work_loop X args hw s' cs of
             Inl e \<Rightarrow> Inl e
           | Inr (s'', calls') \<Rightarrow> Inr (s'', calls @ calls')))"

section \<open>The compute worker\<close>

text \<open>
  One iteration of the loop of \<^verbatim>\<open>http_work\<close> for the worker \<open>w\<close>: the pop on the
  input queue, the wait, which returns the status \<open>st\<close> and the result \<open>r\<close>, and the
  handling of the request. \<open>n\<close> counts the tokens issued to this thread.
\<close>

definition http_work_step ::
  "ext \<Rightarrow> Worker \<Rightarrow> nat \<Rightarrow> int \<Rightarrow> qresult \<Rightarrow> failure + nat \<times> call list" where
  "http_work_step X w n st r =
     (let token = Token n DMTR_OPC_POP (in_qfd w);
          popped = [DmtrPop token (in_qfd w), DmtrWait token]
      in if st = 0 then
           (if qr_opcode r \<noteq> DMTR_OPC_POP then Inl AssertionFailed
            else if sga_numsegs (qr_sga r) \<noteq> 2 then Inl AssertionFailed
            else
              (let req_size = unat (sgaseg_len (sga_segs0 (qr_sga r)));
                   req = sgaseg_buf (sga_segs0 (qr_sga r));
                   (pstatus, url) = parse_http X req req_size
               in case pstatus of
                    REQ_ERROR \<Rightarrow>
                      (case bad_request_seg X of
                         Inl e \<Rightarrow> Inl e
                       | Inr seg \<Rightarrow>
                           (let resp_sga = (uninit_sga X)\<lparr>sga_numsegs := 2, sga_segs0 := seg,
                                  sga_segs1 := (sga_segs1 (uninit_sga X))
                                    \<lparr>sgaseg_len := sgaseg_len (sga_segs1 (qr_sga r))\<rparr>\<rparr>;
                                t_push = Token (n + 1) DMTR_OPC_PUSH (out_qfd w)
                            in Inr (n + 2,
                                    popped @
                                    [Free (sga_buf (qr_sga r)),
                                     Malloc (length (BAD_REQUEST_HEADER X) + 1),
                                     DmtrPush t_push (out_qfd w) resp_sga, DmtrWait t_push,
                                     CleanState])))
                  | REQ_INCOMPLETE \<Rightarrow> Inr (n + 1, popped @ [CleanState])
                  | REQ_COMPLETE \<Rightarrow>
                      (let (response, response_size) = build_response X url
                       in if response = Null then Inr (n + 1, popped @ [CleanState])
                          else
                            (let resp_sga = (uninit_sga X)\<lparr>sga_numsegs := 1,
                                   sga_segs0 := \<lparr>sgaseg_buf = response,
                                                 sgaseg_len = of_int response_size\<rparr>,
                                   sga_segs1 := (sga_segs1 (uninit_sga X))
                                     \<lparr>sgaseg_len := sgaseg_len (sga_segs1 (qr_sga r))\<rparr>\<rparr>;
                                 t_push = Token (n + 1) DMTR_OPC_PUSH (out_qfd w)
                             in Inr (n + 2,
                                     popped @
                                     [Free (sga_buf (qr_sga r)),
                                      DmtrPush t_push (out_qfd w) resp_sga, DmtrWait t_push,
                                      CleanState])))))
         else Inr (n + 1, popped))"

section \<open>Notions used to state the properties\<close>

text \<open>The workers whose threads a list of supervisor calls creates, in order.\<close>

fun http_created :: "setup_call list \<Rightarrow> Worker list" where
  "http_created [] = []"
| "http_created (PthreadCreateHttp w # cs) = w # http_created cs"
| "http_created (c # cs) = http_created cs"

text \<open>
  What iteration \<open>i\<close> of each loop of \<^verbatim>\<open>work_setup\<close> is expected to do when \<open>b\<close>
  threads exist before the loop starts.
\<close>

definition tcp_args_of :: "ext \<Rightarrow> bool \<Rightarrow> nat \<Rightarrow> nat \<Rightarrow> tcp_worker_args" where
  "tcp_args_of X splt b i =
     \<lparr>tcp_filter = ONE_TO_ONE, filter_f = filter_http_req X, saddr = worker_saddr X i,
      whoami = of_nat i, tcp_me = b + i, split = splt\<rparr>"

definition tcp_calls_of :: "ext \<Rightarrow> bool \<Rightarrow> nat \<Rightarrow> nat \<Rightarrow> setup_call list" where
  "tcp_calls_of X splt b i =
     [PthreadCreateTcp (tcp_args_of X splt b i), PinThread (b + i) (of_nat (i + 1))]"

definition http_worker_of :: "ext \<Rightarrow> nat \<Rightarrow> nat \<Rightarrow> Worker" where
  "http_worker_of X b i =
     \<lparr>in_qfd = snd (dmtr_queue X (2 * i)), out_qfd = snd (dmtr_queue X (2 * i + 1)), me = b + i\<rparr>"

definition http_calls_of :: "ext \<Rightarrow> 16 word \<Rightarrow> nat \<Rightarrow> nat \<Rightarrow> setup_call list" where
  "http_calls_of X n_tcp_workers b i =
     [DmtrQueue (2 * i), DmtrQueue (2 * i + 1), PthreadCreateHttp (http_worker_of X b i),
      PinThread (b + i) (of_nat (unat n_tcp_workers + i + 1))]"

text \<open>Whether an outcome is an exit with a non-zero status.\<close>

fun rejected :: "outcome \<Rightarrow> bool" where
  "rejected (Exited c) = (c \<noteq> 0)"
| "rejected (Returned r) = False"
| "rejected Joining = False"

text \<open>The number of accepts on the descriptor \<open>q\<close> among tokens, and the number of accepts in
  flight on the listening descriptor.\<close>

definition accepts_in :: "qd \<Rightarrow> token list \<Rightarrow> nat" where
  "accepts_in q ts =
     length (filter (\<lambda>t. token_opcode t = DMTR_OPC_ACCEPT \<and> token_qd t = q) ts)"

definition accepts_outstanding :: "tcp_state \<Rightarrow> nat" where
  "accepts_outstanding s = accepts_in (lqd s) (tokens s)"

text \<open>The token sets a list of calls waits on, in order.\<close>

fun waits :: "call list \<Rightarrow> token list list" where
  "waits [] = []"
| "waits (DmtrWaitAny ts # cs) = ts # waits cs"
| "waits (c # cs) = waits cs"

text \<open>
  The datapath's contract for \<^verbatim>\<open>dmtr_wait_any\<close>: the index it returns is that of a
  token of the set, and the result it returns is that of this token's operation.
\<close>

definition delivers :: "tcp_state \<Rightarrow> completion \<Rightarrow> bool" where
  "delivers s c =
     (0 \<le> idx c \<and> idx c < int (length (tokens s)) \<and>
      token_qd (tokens s ! nat (idx c)) = qr_qd c \<and>
      token_opcode (tokens s ! nat (idx c)) = qr_opcode c)"

text \<open>
  A sequence of completions that respects this contract at every iteration, and in which
  no operation on the listening descriptor completes with an error.
\<close>

fun accepts_succeed ::
  "ext \<Rightarrow> tcp_worker_args \<Rightarrow> Worker list \<Rightarrow> tcp_state \<Rightarrow> completion list \<Rightarrow> bool" where
  "accepts_succeed X args hw s [] = True"
| "accepts_succeed X args hw s (c # cs) =
     (delivers s c \<and> (status c = 0 \<or> qr_qd c \<noteq> lqd s) \<and>
      (case tcp_work_step X args hw s c of
         Inl e \<Rightarrow> True
       | Inr (s', calls) \<Rightarrow> accepts_succeed X args hw s' cs))"

text \<open>
  The accepts in flight on the descriptor \<open>q\<close>, as tokens: those among the tokens the worker
  waits on; those a list of calls has submitted, in order; the tokens a sequence of
  completions reports as completed, one per iteration of the loop; and the accepts
  submitted by a list of calls that are not among the completed tokens.
\<close>

fun token_id :: "token \<Rightarrow> nat" where
  "token_id (Token n opc q) = n"

definition accept_tokens :: "qd \<Rightarrow> token list \<Rightarrow> token list" where
  "accept_tokens q ts = filter (\<lambda>t. token_opcode t = DMTR_OPC_ACCEPT \<and> token_qd t = q) ts"

fun accepts_submitted :: "qd \<Rightarrow> call list \<Rightarrow> token list" where
  "accepts_submitted q [] = []"
| "accepts_submitted q (DmtrAccept t q' # cs) =
     (if q' = q then t # accepts_submitted q cs else accepts_submitted q cs)"
| "accepts_submitted q (c # cs) = accepts_submitted q cs"

fun completed_tokens ::
  "ext \<Rightarrow> tcp_worker_args \<Rightarrow> Worker list \<Rightarrow> tcp_state \<Rightarrow> completion list \<Rightarrow> token list" where
  "completed_tokens X args hw s [] = []"
| "completed_tokens X args hw s (c # cs) =
     tokens s ! nat (idx c) #
     (case tcp_work_step X args hw s c of
        Inl e \<Rightarrow> []
      | Inr (s', calls) \<Rightarrow> completed_tokens X args hw s' cs)"

definition accepts_in_flight :: "qd \<Rightarrow> call list \<Rightarrow> token list \<Rightarrow> token list" where
  "accepts_in_flight q calls completed =
     filter (\<lambda>t. t \<notin> set completed) (accepts_submitted q calls)"

text \<open>
  The invariant of the loop behind the accept in flight: the worker waits on one accept
  token of the listening descriptor, this token is the one accept submitted and not yet
  completed, and every token seen so far is older than the next one to be issued.
\<close>

definition in_flight_inv :: "tcp_state \<Rightarrow> token list \<Rightarrow> token list \<Rightarrow> bool" where
  "in_flight_inv s sub del =
     ((\<exists>t. accept_tokens (lqd s) (tokens s) = [t] \<and> filter (\<lambda>x. x \<notin> set del) sub = [t]) \<and>
      (\<forall>x \<in> set (tokens s) \<union> set del. token_id x < issued s))"

text \<open>
  Scanning a list of calls for the descriptor \<open>q\<close>, one call at a time. The state holds the
  tokens of the pushes to \<open>q\<close> since the last pop on \<open>q\<close>, whether one of them has been
  waited for, and whether the call just scanned was a pop on \<open>q\<close> that no such wait came
  before: such a pop is in order only as the first pop on a connection just accepted, that is,
  when the next call is the \<^verbatim>\<open>dmtr_accept\<close> that re-arms the listening descriptor.
\<close>

fun scan_call :: "qd \<Rightarrow> token list \<times> bool \<times> bool \<Rightarrow> call \<Rightarrow> (token list \<times> bool \<times> bool) option" where
  "scan_call q (pend, done, owed) (DmtrAccept t l) = Some (pend, done, False)"
| "scan_call q (pend, done, owed) (DmtrPop t q') =
     (if owed then None
      else if q' = q then Some ([], False, \<not> done)
      else Some (pend, done, False))"
| "scan_call q (pend, done, owed) (DmtrPush t q' g) =
     (if owed then None else Some (if q' = q then t # pend else pend, done, False))"
| "scan_call q (pend, done, owed) (DmtrWait t) =
     (if owed then None else Some (pend, done \<or> t \<in> set pend, False))"
| "scan_call q (pend, done, owed) c = (if owed then None else Some (pend, done, False))"

fun serial_scan :: "qd \<Rightarrow> token list \<times> bool \<times> bool \<Rightarrow> call list \<Rightarrow> (token list \<times> bool \<times> bool) option" where
  "serial_scan q st [] = Some st"
| "serial_scan q st (c # cs) =
     (case scan_call q st c of None \<Rightarrow> None | Some st' \<Rightarrow> serial_scan q st' cs)"

text \<open>A scan succeeds when it ran to the end and no pop is left unaccounted for.\<close>

definition settled :: "(token list \<times> bool \<times> bool) option \<Rightarrow> bool" where
  "settled r = (case r of None \<Rightarrow> False | Some (pend, done, owed) \<Rightarrow> \<not> owed)"

text \<open>
  Every pop on \<open>q\<close> in the list is the first pop on a connection just accepted, or comes after
  a push to \<open>q\<close> and the wait for that push, with no other pop on \<open>q\<close> in between.
\<close>

definition pops_serialised :: "qd \<Rightarrow> call list \<Rightarrow> bool" where
  "pops_serialised q calls = settled (serial_scan q ([], False, False) calls)"

text \<open>The descriptors a list of calls submits a pop on, in order.\<close>

fun pops_submitted :: "call list \<Rightarrow> qd list" where
  "pops_submitted [] = []"
| "pops_submitted (DmtrPop t q # cs) = q # pops_submitted cs"
| "pops_submitted (c # cs) = pops_submitted cs"

text \<open>The pushes of a list of calls, each with its descriptor, in order.\<close>

fun pushes :: "call list \<Rightarrow> (qd \<times> sgarray) list" where
  "pushes [] = []"
| "pushes (DmtrPush t q g # cs) = (q, g) # pushes cs"
| "pushes (c # cs) = pushes cs"



text \<open>The buffers a list of calls frees, in order.\<close>

fun frees :: "call list \<Rightarrow> ptr list" where
  "frees [] = []"
| "frees (Free p # cs) = p # frees cs"
| "frees (c # cs) = frees cs"

text \<open>
  Whether the completion \<open>c\<close>, delivered in the state \<open>s\<close>, is a new request, and the
  number of new requests in a sequence of completions.
\<close>

definition is_request :: "tcp_state \<Rightarrow> completion \<Rightarrow> bool" where
  "is_request s c =
     (status c = 0 \<and> qr_qd c \<noteq> lqd s \<and> qr_qd c \<notin> set (http_q_pending s))"

fun requests_received ::
  "ext \<Rightarrow> tcp_worker_args \<Rightarrow> Worker list \<Rightarrow> tcp_state \<Rightarrow> completion list \<Rightarrow> nat" where
  "requests_received X args hw s [] = 0"
| "requests_received X args hw s (c # cs) =
     (if is_request s c then 1 else 0) +
     (case tcp_work_step X args hw s c of
        Inl e \<Rightarrow> 0
      | Inr (s', calls) \<Rightarrow> requests_received X args hw s' cs)"

section \<open>Sample collaborators and inputs\<close>

text \<open>
  Stand-ins for the collaborators, to run the model on concrete inputs: a parser that
  takes what starts with \<open>GET\<close> and a blank for a request, complete once it holds a line
  feed; builders that return fixed buffers; a datapath whose \<open>k\<close>-th queue has the
  descriptor \<open>100 + k\<close>.
\<close>

definition sample_parse :: "ptr \<Rightarrow> nat \<Rightarrow> parser_status \<times> string" where
  "sample_parse p n =
     (case p of
        Null \<Rightarrow> (REQ_ERROR, [])
      | Ptr a bs \<Rightarrow>
          if take 4 (take n bs) \<noteq> ''GET '' then (REQ_ERROR, [])
          else if CHR 0x0A \<notin> set (take n bs) then (REQ_INCOMPLETE, [])
          else (REQ_COMPLETE, takeWhile (\<lambda>ch. ch \<noteq> CHR '' '') (drop 4 (take n bs))))"

definition sample_sga :: sgarray where
  "sample_sga = \<lparr>sga_buf = Null, sga_numsegs = 0,
                 sga_segs0 = \<lparr>sgaseg_buf = Null, sgaseg_len = 0\<rparr>,
                 sga_segs1 = \<lparr>sgaseg_buf = Null, sgaseg_len = 0\<rparr>\<rparr>"

definition sample_ext :: ext where
  "sample_ext =
     \<lparr>parse_http = sample_parse,
      get_request_type = (\<lambda>url. if take 6 url = ''/regex'' then REGEX_REQ else FILE_REQ),
      req_type_code = (\<lambda>t. case t of REGEX_REQ \<Rightarrow> 0 | FILE_REQ \<Rightarrow> 1),
      regex_work = (\<lambda>url. (Ptr 200 ''HTTP/1.1 200 OK'', 15)),
      file_work = (\<lambda>url. (Ptr 300 ''HTTP/1.1 404 Not Found'', 22)),
      BAD_REQUEST_HEADER = ''HTTP/1.1 400 Bad Request'',
      malloc = (\<lambda>n. Ptr 400 []),
      uninit_sga = sample_sga,
      dmtr_init = 0,
      dmtr_queue = (\<lambda>k. (0, of_nat (100 + k))),
      server_ip_addr = None,
      port = 8080\<rparr>"

text \<open>A request popped from a descriptor: one segment that holds the bytes \<open>bs\<close> at address 500.\<close>

definition popped :: "qd \<Rightarrow> string \<Rightarrow> int \<Rightarrow> completion" where
  "popped q bs i =
     \<lparr>qr_opcode = DMTR_OPC_POP, qr_qd = q,
      qr_sga = \<lparr>sga_buf = Ptr 500 bs, sga_numsegs = 1,
                sga_segs0 = \<lparr>sgaseg_buf = Ptr 500 bs, sgaseg_len = of_nat (length bs)\<rparr>,
                sga_segs1 = \<lparr>sgaseg_buf = Null, sgaseg_len = 0\<rparr>\<rparr>,
      qr_ares_qd = 0, status = 0, idx = i\<rparr>"

text \<open>An accept on the descriptor \<open>q\<close> that completes with the status \<open>st\<close> and the new descriptor \<open>new\<close>.\<close>

definition accepted :: "qd \<Rightarrow> qd \<Rightarrow> int \<Rightarrow> int \<Rightarrow> completion" where
  "accepted q new st i =
     \<lparr>qr_opcode = DMTR_OPC_ACCEPT, qr_qd = q, qr_sga = sample_sga, qr_ares_qd = new,
      status = st, idx = i\<rparr>"

text \<open>A reply popped from a queue, with its scatter/gather array.\<close>

definition replied :: "qd \<Rightarrow> sgarray \<Rightarrow> int \<Rightarrow> completion" where
  "replied q g i =
     \<lparr>qr_opcode = DMTR_OPC_POP, qr_qd = q, qr_sga = g, qr_ares_qd = 0, status = 0, idx = i\<rparr>"

definition sample_args :: "tcp_filters \<Rightarrow> bool \<Rightarrow> tcp_worker_args" where
  "sample_args f splt =
     \<lparr>tcp_filter = f, filter_f = filter_http_req sample_ext,
      saddr = \<lparr>sin_addr = 0, sin_port = 8080\<rparr>, whoami = 0, tcp_me = 0, split = splt\<rparr>"

definition sample_workers :: "Worker list" where
  "sample_workers =
     [\<lparr>in_qfd = 100, out_qfd = 101, me = 1\<rparr>, \<lparr>in_qfd = 102, out_qfd = 103, me = 2\<rparr>,
      \<lparr>in_qfd = 104, out_qfd = 105, me = 3\<rparr>]"

text \<open>A connection worker that listens on 5 and has one connection, 7, armed for reading.\<close>

definition sample_state :: tcp_state where
  "sample_state =
     \<lparr>tokens = [Token 1 DMTR_OPC_POP 7, Token 2 DMTR_OPC_ACCEPT 5], http_q_pending = [],
      num_rcvd = 0, lqd = 5, issued = 3\<rparr>"

text \<open>What a compute worker pops from its input queue: a pop result without index or status.\<close>

definition queued :: "qd \<Rightarrow> sgarray \<Rightarrow> qresult" where
  "queued q g = \<lparr>qr_opcode = DMTR_OPC_POP, qr_qd = q, qr_sga = g, qr_ares_qd = 0\<rparr>"

text \<open>A request the sample parser takes for complete.\<close>

definition sample_request :: string where
  "sample_request = ''GET /a '' @ [CHR 0x0A]"

text \<open>
  The sample request as a connection worker forwards it for the connection 7, and the
  response the sample builders give to it.
\<close>

definition sample_forwarded :: sgarray where
  "sample_forwarded =
     \<lparr>sga_buf = Ptr 500 sample_request, sga_numsegs = 2,
      sga_segs0 = \<lparr>sgaseg_buf = Ptr 500 sample_request, sgaseg_len = 8\<rparr>,
      sga_segs1 = \<lparr>sgaseg_buf = Null, sgaseg_len = 7\<rparr>\<rparr>"

definition sample_response :: sgarray where
  "sample_response =
     \<lparr>sga_buf = Null, sga_numsegs = 1,
      sga_segs0 = \<lparr>sgaseg_buf = Ptr 300 ''HTTP/1.1 404 Not Found'', sgaseg_len = 22\<rparr>,
      sga_segs1 = \<lparr>sgaseg_buf = Null, sgaseg_len = 7\<rparr>\<rparr>"

section \<open>Evaluation\<close>

lemmas tcp_step_defs =
  tcp_work_step_def accept_connection_def pop_completion_def failed_completion_def
  forward_request_def serve_request_def forward_reply_def erase_at_def choose_worker_def
  worker_at_def build_response_def bad_request_seg_def INT_MAX_def ECONNRESET_def
  ECONNABORTED_def size_t_of_int_def int_of_size_t_def Let_def

lemmas sample_defs =
  sample_ext_def sample_parse_def sample_sga_def sample_args_def sample_workers_def
  sample_state_def popped_def accepted_def replied_def queued_def sample_request_def
  sample_forwarded_def sample_response_def

section \<open>Properties of the supervisor\<close>


lemma create_tcp_workers_exits:
  "0 < unat n_tcp \<Longrightarrow> unat n_tcp < unat n_http \<Longrightarrow>
   create_tcp_workers X n_tcp n_http sp 0 st = (Some 1, st)"
  by (simp add: create_tcp_workers.simps)

lemma create_tcp_workers_runs:
  "\<not> unat n_tcp < unat n_http \<Longrightarrow> length (worker_threads st) = b + i \<Longrightarrow> i \<le> unat n_tcp \<Longrightarrow>
   create_tcp_workers X n_tcp n_http sp i st =
     (None, st\<lparr>worker_threads := worker_threads st @ map (\<lambda>j. b + j) [i..<unat n_tcp],
               setup_calls := setup_calls st @ concat (map (tcp_calls_of X sp b) [i..<unat n_tcp])\<rparr>)"
proof (induction "unat n_tcp - i" arbitrary: i st)
  case 0
  then show ?case by (simp add: create_tcp_workers.simps create_http_workers.simps)
next
  case (Suc k)
  then have lt: "i < unat n_tcp" by simp
  let ?st = "st\<lparr>worker_threads := worker_threads st @ [b + i],
                 setup_calls := setup_calls st @ tcp_calls_of X sp b i\<rparr>"
  have step: "create_tcp_workers X n_tcp n_http sp i st =
              create_tcp_workers X n_tcp n_http sp (Suc i) ?st"
    using lt Suc.prems(1,2) by (subst create_tcp_workers.simps) (simp add: tcp_calls_of_def tcp_args_of_def Let_def)
  have "create_tcp_workers X n_tcp n_http sp (Suc i) ?st =
     (None, ?st\<lparr>worker_threads := worker_threads ?st @ map (\<lambda>j. b + j) [Suc i..<unat n_tcp],
               setup_calls := setup_calls ?st @ concat (map (tcp_calls_of X sp b) [Suc i..<unat n_tcp])\<rparr>)"
    using Suc.hyps(2) lt Suc.prems by (intro Suc.hyps(1)) auto
  then show ?case
    using lt by (simp only: step) (simp add: upt_conv_Cons)
qed

lemma create_tcp_workers_none:
  "unat n_tcp = 0 \<Longrightarrow> create_tcp_workers X n_tcp n_http sp 0 st = (None, st)"
  by (simp add: create_tcp_workers.simps)

lemma create_http_workers_runs:
  "\<forall>k < 2 * unat n_http. fst (dmtr_queue X k) = 0 \<Longrightarrow>
   length (worker_threads st) = b + i \<Longrightarrow> i \<le> unat n_http \<Longrightarrow>
   create_http_workers X n_tcp n_http i st =
     (None, st\<lparr>http_workers := http_workers st @ map (http_worker_of X b) [i..<unat n_http],
               worker_threads := worker_threads st @ map (\<lambda>j. b + j) [i..<unat n_http],
               setup_calls := setup_calls st @ concat (map (http_calls_of X n_tcp b) [i..<unat n_http])\<rparr>)"
proof (induction "unat n_http - i" arbitrary: i st)
  case 0
  then show ?case by (simp add: create_tcp_workers.simps create_http_workers.simps)
next
  case (Suc k)
  then have lt: "i < unat n_http" by simp
  have q1: "fst (dmtr_queue X (2 * i)) = 0" and q2: "fst (dmtr_queue X (2 * i + 1)) = 0"
    using Suc.prems(1) lt by auto
  let ?st = "st\<lparr>http_workers := http_workers st @ [http_worker_of X b i],
                 worker_threads := worker_threads st @ [b + i],
                 setup_calls := setup_calls st @ http_calls_of X n_tcp b i\<rparr>"
  have step: "create_http_workers X n_tcp n_http i st =
              create_http_workers X n_tcp n_http (Suc i) ?st"
    using lt Suc.prems(2) q1 q2
    by (subst create_http_workers.simps) (simp add: http_calls_of_def http_worker_of_def Let_def case_prod_beta)
  have "create_http_workers X n_tcp n_http (Suc i) ?st =
     (None, ?st\<lparr>http_workers := http_workers ?st @ map (http_worker_of X b) [Suc i..<unat n_http],
               worker_threads := worker_threads ?st @ map (\<lambda>j. b + j) [Suc i..<unat n_http],
               setup_calls := setup_calls ?st @ concat (map (http_calls_of X n_tcp b) [Suc i..<unat n_http])\<rparr>)"
    using Suc.hyps(2) lt Suc.prems by (intro Suc.hyps(1)) auto
  then show ?case
    using lt by (simp only: step) (simp add: upt_conv_Cons)
qed

lemma http_created_append: "http_created (xs @ ys) = http_created xs @ http_created ys"
  by (induction xs rule: http_created.induct) simp_all

lemma create_tcp_workers_http_created:
  "http_created (setup_calls (snd (create_tcp_workers X n_tcp n_http sp i st))) =
   http_created (setup_calls st)"
proof (induction X n_tcp n_http sp i st rule: create_tcp_workers.induct)
  case (1 X n_tcp n_http sp i st)
  show ?case
    using "1.IH" by (subst create_tcp_workers.simps) (simp add: Let_def http_created_append)
qed

lemma main_creates_no_http_worker:
  "http_created (setup_calls (snd (main X n_http n_tcp))) = []"
proof -
  let ?st = "setup_init\<lparr>setup_calls := [PinSelf 0]\<rparr>"
  have "http_created (setup_calls (snd (create_tcp_workers X n_tcp n_http False 0 ?st))) = []"
    by (simp add: create_tcp_workers_http_created setup_init_def)
  then show ?thesis
    by (auto simp: main_def work_setup_def setup_init_def split: prod.splits option.splits outcome.splits)
qed

lemma map_add_upt': "map (\<lambda>j. n + j) [0..<m] = [n..<n + m]"
  by (induction m) simp_all

text \<open>
  C1 (as amended). \<^verbatim>\<open>main\<close> takes the two worker counts only and calls \<^verbatim>\<open>work_setup\<close>
  with \<^verbatim>\<open>split\<close> false, so a run of \<^verbatim>\<open>main\<close> creates no compute worker.
  \<^verbatim>\<open>work_setup\<close> called with \<^verbatim>\<open>split\<close> true, on a configuration that passes the
  one-to-one check (no connection worker, or at least as many connection workers as compute
  workers) and with every queue creation succeeding, returns 1 after creating the connection
  workers and then, for each \<open>i\<close> below \<^verbatim>\<open>n_http_workers\<close> in turn, the two queues of
  compute worker \<open>i\<close>, its thread and its pinning: exactly \<^verbatim>\<open>n_http_workers\<close> compute
  workers, all of them in \<^verbatim>\<open>http_workers\<close>.
\<close>

theorem work_setup_split_creates_compute_workers:
  assumes guard: "unat n_tcp = 0 \<or> unat n_http \<le> unat n_tcp"
      and queues: "\<forall>k < 2 * unat n_http. fst (dmtr_queue X k) = 0"
  shows "http_created (setup_calls (snd (main X n_http n_tcp))) = [] \<and>
         work_setup X n_tcp n_http True setup_init =
           (Returned 1,
            \<lparr>http_workers = map (http_worker_of X (unat n_tcp)) [0..<unat n_http],
             worker_threads = [0..<unat n_tcp + unat n_http],
             setup_calls = concat (map (tcp_calls_of X True 0) [0..<unat n_tcp]) @
                           concat (map (http_calls_of X n_tcp (unat n_tcp)) [0..<unat n_http])\<rparr>)"
proof -
  let ?st1 = "setup_init\<lparr>worker_threads := worker_threads setup_init @ map (\<lambda>j. 0 + j) [0..<unat n_tcp],
               setup_calls := setup_calls setup_init @ concat (map (tcp_calls_of X True 0) [0..<unat n_tcp])\<rparr>"
  from guard have ng: "\<not> unat n_tcp < unat n_http \<or> unat n_tcp = 0" by auto
  have tcp: "create_tcp_workers X n_tcp n_http True 0 setup_init = (None, ?st1)"
  proof (cases "unat n_tcp = 0")
    case True
    then show ?thesis by (simp add: create_tcp_workers_none)
  next
    case False
    with ng have "\<not> unat n_tcp < unat n_http" by simp
    then show ?thesis
      by (intro create_tcp_workers_runs) (simp_all add: setup_init_def)
  qed
  have len: "length (worker_threads ?st1) = unat n_tcp + 0"
    by (simp add: setup_init_def)
  have http: "create_http_workers X n_tcp n_http 0 ?st1 =
     (None, ?st1\<lparr>http_workers := http_workers ?st1 @ map (http_worker_of X (unat n_tcp)) [0..<unat n_http],
               worker_threads := worker_threads ?st1 @ map (\<lambda>j. unat n_tcp + j) [0..<unat n_http],
               setup_calls := setup_calls ?st1 @ concat (map (http_calls_of X n_tcp (unat n_tcp)) [0..<unat n_http])\<rparr>)"
    using queues len by (intro create_http_workers_runs) simp_all
  have "work_setup X n_tcp n_http True setup_init =
           (Returned 1,
            \<lparr>http_workers = map (http_worker_of X (unat n_tcp)) [0..<unat n_http],
             worker_threads = [0..<unat n_tcp + unat n_http],
             setup_calls = concat (map (tcp_calls_of X True 0) [0..<unat n_tcp]) @
                           concat (map (http_calls_of X n_tcp (unat n_tcp)) [0..<unat n_http])\<rparr>)"
    unfolding work_setup_def tcp
    by (simp add: http) (simp add: setup_init_def map_add_upt' upt_add_eq_append [symmetric])
  then show ?thesis
    by (simp add: main_creates_no_http_worker)
qed

text \<open>The theorem at two connection workers and two compute workers.\<close>

theorem work_setup_split_creates_compute_workers_witness:
  "(unat (2 :: 16 word) = 0 \<or> unat (2 :: 16 word) \<le> unat (2 :: 16 word)) \<and>
   list_all (\<lambda>k. fst (dmtr_queue sample_ext k) = 0) [0..<4] \<and>
   http_created (setup_calls (snd (main sample_ext 2 2))) = [] \<and>
   http_workers (snd (work_setup sample_ext 2 2 True setup_init)) =
     [\<lparr>in_qfd = 100, out_qfd = 101, me = 2\<rparr>, \<lparr>in_qfd = 102, out_qfd = 103, me = 3\<rparr>] \<and>
   http_created (setup_calls (snd (work_setup sample_ext 2 2 True setup_init))) =
     [\<lparr>in_qfd = 100, out_qfd = 101, me = 2\<rparr>, \<lparr>in_qfd = 102, out_qfd = 103, me = 3\<rparr>]"
proof -
  have g: "unat (2 :: 16 word) = 0 \<or> unat (2 :: 16 word) \<le> unat (2 :: 16 word)" by simp
  have q: "\<forall>k < 2 * unat (2 :: 16 word). fst (dmtr_queue sample_ext k) = 0"
    by (simp add: sample_ext_def)
  have u: "[0..<2] = [0, Suc 0]" by (simp add: upt_conv_Cons)
  show ?thesis
    using work_setup_split_creates_compute_workers [OF g q]
    by (simp add: sample_ext_def u http_worker_of_def http_calls_of_def tcp_calls_of_def list_all_iff)
qed

text \<open>
  C1 as stated fails: with one connection worker and two compute workers, \<^verbatim>\<open>work_setup\<close>
  in split mode exits with status 1 and no compute worker is created; and \<^verbatim>\<open>main\<close>, asked
  for two compute workers, creates none.
\<close>

theorem work_setup_split_counterexample:
  "fst (work_setup sample_ext 1 2 True setup_init) = Exited 1 \<and>
   http_created (setup_calls (snd (work_setup sample_ext 1 2 True setup_init))) = [] \<and>
   http_created (setup_calls (snd (main sample_ext 2 2))) = []"
  by (simp add: work_setup_def main_def setup_init_def create_tcp_workers.simps sample_ext_def)


lemma create_tcp_workers_passes:
  assumes "unat n_tcp = 0 \<or> \<not> unat n_tcp < unat n_http"
  shows "fst (create_tcp_workers X n_tcp n_http sp 0 st) = None"
proof (cases "unat n_tcp = 0")
  case True
  then show ?thesis by (simp add: create_tcp_workers_none)
next
  case False
  with assms have "\<not> unat n_tcp < unat n_http" by simp
  then have "create_tcp_workers X n_tcp n_http sp 0 st =
     (None, st\<lparr>worker_threads := worker_threads st @ map (\<lambda>j. length (worker_threads st) + j) [0..<unat n_tcp],
               setup_calls := setup_calls st @
                 concat (map (tcp_calls_of X sp (length (worker_threads st))) [0..<unat n_tcp])\<rparr>)"
    by (intro create_tcp_workers_runs) simp_all
  then show ?thesis by simp
qed

lemma work_setup_exits:
  assumes "0 < unat n_tcp" and "unat n_tcp < unat n_http"
  shows "work_setup X n_tcp n_http sp st = (Exited 1, st)"
  using assms by (simp add: work_setup_def create_tcp_workers_exits)

lemma work_setup_passes:
  assumes "unat n_tcp = 0 \<or> \<not> unat n_tcp < unat n_http"
  shows "\<not> rejected (fst (work_setup X n_tcp n_http sp st))"
  using create_tcp_workers_passes [OF assms, of X sp st]
  by (auto simp: work_setup_def split: prod.splits option.splits)

text \<open>
  C2 (as amended). Under the one-to-one policy, the only one \<^verbatim>\<open>work_setup\<close> selects, a
  configuration with at least one connection worker and fewer connection workers than
  compute workers is rejected with exit status 1; a configuration with as many connection
  workers as compute workers, or with no connection worker, is not rejected. (Nothing is
  said here of more connection workers than compute workers.)
\<close>

theorem one_to_one_check:
  "(0 < unat n_tcp \<and> unat n_tcp < unat n_http \<longrightarrow>
      fst (work_setup X n_tcp n_http sp st) = Exited 1) \<and>
   (unat n_tcp = 0 \<or> n_tcp = n_http \<longrightarrow>
      \<not> rejected (fst (work_setup X n_tcp n_http sp st)))"
proof (intro conjI impI)
  assume "0 < unat n_tcp \<and> unat n_tcp < unat n_http"
  then show "fst (work_setup X n_tcp n_http sp st) = Exited 1"
    by (simp add: work_setup_exits)
next
  assume "unat n_tcp = 0 \<or> n_tcp = n_http"
  then have "unat n_tcp = 0 \<or> \<not> unat n_tcp < unat n_http" by auto
  then show "\<not> rejected (fst (work_setup X n_tcp n_http sp st))"
    by (rule work_setup_passes)
qed

text \<open>
  The theorem at one connection worker and two compute workers, at two and two, and at
  none and two.
\<close>

theorem one_to_one_check_witness:
  "0 < unat (1 :: 16 word) \<and> unat (1 :: 16 word) < unat (2 :: 16 word) \<and>
   fst (work_setup sample_ext 1 2 True setup_init) = Exited 1 \<and>
   \<not> rejected (fst (work_setup sample_ext 2 2 True setup_init)) \<and>
   \<not> rejected (fst (work_setup sample_ext 0 2 False setup_init))"
  using one_to_one_check [of 1 2 sample_ext True setup_init]
        one_to_one_check [of 2 2 sample_ext True setup_init]
        one_to_one_check [of 0 2 sample_ext False setup_init]
  by simp

text \<open>
  C2 as stated fails in both directions: one connection worker with two compute workers
  (no fewer compute workers than connection workers) is rejected, and two connection workers
  with one compute worker are accepted.
\<close>

theorem one_to_one_check_counterexample:
  "fst (work_setup sample_ext 1 2 False setup_init) = Exited 1 \<and>
   fst (work_setup sample_ext 2 1 False setup_init) = Returned 1"
  by (simp add: work_setup_def setup_init_def create_tcp_workers.simps)

text \<open>
  C10 (as amended). The check does not depend on \<^verbatim>\<open>split\<close>: for every configuration with
  at least one connection worker and fewer connection workers than compute workers,
  \<^verbatim>\<open>work_setup\<close> calls \<^verbatim>\<open>exit(1)\<close> in either mode before it has created a thread or a
  queue, and so does \<^verbatim>\<open>main\<close>, which always asks for joined mode, once \<^verbatim>\<open>dmtr_init\<close> has
  succeeded.
\<close>

theorem check_precedes_spawning:
  assumes "0 < unat n_tcp" and "unat n_tcp < unat n_http"
  shows "work_setup X n_tcp n_http sp st = (Exited 1, st) \<and>
         main X n_http n_tcp =
           (if dmtr_init X \<noteq> 0 then (Returned (dmtr_init X), setup_init)
            else (Exited 1, setup_init\<lparr>setup_calls := [PinSelf 0]\<rparr>))"
  using assms by (simp add: main_def work_setup_exits)

text \<open>
  The theorem at one connection worker and two compute workers, in both modes.
\<close>

theorem check_precedes_spawning_witness:
  "0 < unat (1 :: 16 word) \<and> unat (1 :: 16 word) < unat (2 :: 16 word) \<and>
   work_setup sample_ext 1 2 True setup_init = (Exited 1, setup_init) \<and>
   work_setup sample_ext 1 2 False setup_init = (Exited 1, setup_init) \<and>
   main sample_ext 2 1 = (Exited 1, setup_init\<lparr>setup_calls := [PinSelf 0]\<rparr>)"
proof -
  have a: "0 < unat (1 :: 16 word)" and b: "unat (1 :: 16 word) < unat (2 :: 16 word)"
    by simp_all
  have i: "dmtr_init sample_ext = 0" by (simp add: sample_ext_def)
  show ?thesis
    using check_precedes_spawning [OF a b, of sample_ext True setup_init]
          check_precedes_spawning [OF a b, of sample_ext False setup_init] a b i
    by simp
qed

text \<open>
  C10 as stated fails when there is no connection worker: the check stands inside the loop
  that creates them, so with none and one compute worker \<^verbatim>\<open>work_setup\<close> returns 1 in
  joined mode, creates the compute worker in split mode, and \<^verbatim>\<open>main\<close> returns 0.
\<close>

theorem check_skipped_counterexample:
  "work_setup sample_ext 0 1 False setup_init = (Returned 1, setup_init) \<and>
   work_setup sample_ext 0 1 True setup_init =
     (Returned 1,
      \<lparr>http_workers = [\<lparr>in_qfd = 100, out_qfd = 101, me = 0\<rparr>], worker_threads = [0],
       setup_calls = [DmtrQueue 0, DmtrQueue 1,
                      PthreadCreateHttp \<lparr>in_qfd = 100, out_qfd = 101, me = 0\<rparr>, PinThread 0 1]\<rparr>) \<and>
   fst (main sample_ext 1 0) = Returned 0"
  by (simp add: work_setup_def main_def setup_init_def create_tcp_workers.simps
      create_http_workers.simps sample_ext_def Let_def)

section \<open>Properties of the workers\<close>

subsection \<open>The parse-error path in joined mode\<close>

text \<open>
  C3, at a request the parser rejects, in joined mode. The worker frees the request
  buffer, pushes the bad-request response to the client and waits for the push; it then
  goes on to the next iteration: the response buffer (at address 400) is not freed, no pop
  is submitted on the client descriptor 7, and the token set holds no token for it.
\<close>

theorem joined_parse_error_not_rearmed:
  "tcp_work_step sample_ext (sample_args ONE_TO_ONE False) [] sample_state
     (popped 7 ''NOT_HTTP garbage'' 0) =
   Inr (\<lparr>tokens = [Token 2 DMTR_OPC_ACCEPT 5], http_q_pending = [], num_rcvd = 1, lqd = 5,
          issued = 4\<rparr>,
        [DmtrWaitAny [Token 1 DMTR_OPC_POP 7, Token 2 DMTR_OPC_ACCEPT 5],
         Free (Ptr 500 ''NOT_HTTP garbage''), Malloc 25,
         DmtrPush (Token 3 DMTR_OPC_PUSH 7) 7
           \<lparr>sga_buf = Null, sga_numsegs = 1,
            sga_segs0 = \<lparr>sgaseg_buf = Ptr 400 ''HTTP/1.1 400 Bad Request'', sgaseg_len = 24\<rparr>,
            sga_segs1 = \<lparr>sgaseg_buf = Null, sgaseg_len = 0\<rparr>\<rparr>,
         DmtrWait (Token 3 DMTR_OPC_PUSH 7), CleanState])"
  by (simp add: tcp_step_defs sample_defs)

subsection \<open>The response of the compute worker\<close>

text \<open>
  C4 (as amended). For every request the compute worker parses as complete and for which the
  builder returns a response, the iteration succeeds and pushes one scatter/gather array, to
  the worker's output queue: its \<^verbatim>\<open>sga_numsegs\<close> is 1, its segment 0 holds the response
  buffer and the response size, and the length of its segment 1 is that of the incoming
  request.
\<close>

theorem compute_worker_response:
  assumes "qr_opcode r = DMTR_OPC_POP" and "sga_numsegs (qr_sga r) = 2"
      and "parse_http X (sgaseg_buf (sga_segs0 (qr_sga r)))
             (unat (sgaseg_len (sga_segs0 (qr_sga r)))) = (REQ_COMPLETE, url)"
      and "build_response X url = (response, response_size)" and "response \<noteq> Null"
  shows "\<exists>n' calls g. http_work_step X w n 0 r = Inr (n', calls) \<and>
           pushes calls = [(out_qfd w, g)] \<and> sga_numsegs g = 1 \<and>
           sga_segs0 g = \<lparr>sgaseg_buf = response, sgaseg_len = of_int response_size\<rparr> \<and>
           sgaseg_len (sga_segs1 g) = sgaseg_len (sga_segs1 (qr_sga r))"
  using assms by (simp add: http_work_step_def Let_def)

text \<open>
  The theorem at the sample request, forwarded for the connection 7.
\<close>

theorem compute_worker_response_witness:
  "qr_opcode (queued 100 sample_forwarded) = DMTR_OPC_POP \<and>
   sga_numsegs (qr_sga (queued 100 sample_forwarded)) = 2 \<and>
   (\<exists>n' calls g.
      http_work_step sample_ext \<lparr>in_qfd = 100, out_qfd = 101, me = 1\<rparr> 0 0
        (queued 100 sample_forwarded) = Inr (n', calls) \<and>
      pushes calls = [(101, g)] \<and> sga_numsegs g = 1 \<and>
      sga_segs0 g = \<lparr>sgaseg_buf = Ptr 300 ''HTTP/1.1 404 Not Found'', sgaseg_len = 22\<rparr> \<and>
      sgaseg_len (sga_segs1 g) = 7)"
proof -
  let ?r = "queued 100 sample_forwarded"
  have a: "qr_opcode ?r = DMTR_OPC_POP" and b: "sga_numsegs (qr_sga ?r) = 2"
    by (simp_all add: sample_defs)
  have c: "parse_http sample_ext (sgaseg_buf (sga_segs0 (qr_sga ?r)))
             (unat (sgaseg_len (sga_segs0 (qr_sga ?r)))) = (REQ_COMPLETE, ''/a'')"
    by (simp add: sample_defs)
  have d: "build_response sample_ext ''/a'' = (Ptr 300 ''HTTP/1.1 404 Not Found'', 22)"
    by (simp add: build_response_def sample_defs)
  have e: "Ptr 300 ''HTTP/1.1 404 Not Found'' \<noteq> Null" by simp
  show ?thesis
    using compute_worker_response [OF a b c d e, of "\<lparr>in_qfd = 100, out_qfd = 101, me = 1\<rparr>" 0] a b
    by (simp add: sample_defs)
qed

text \<open>
  C4 as stated fails: the array the compute worker pushes for the sample request has
  \<^verbatim>\<open>sga_numsegs\<close> 1, not 2.
\<close>

theorem compute_worker_numsegs_counterexample:
  "http_work_step sample_ext \<lparr>in_qfd = 100, out_qfd = 101, me = 1\<rparr> 0 0
     (queued 100 sample_forwarded) =
   Inr (2, [DmtrPop (Token 0 DMTR_OPC_POP 100) 100, DmtrWait (Token 0 DMTR_OPC_POP 100),
            Free (Ptr 500 sample_request),
            DmtrPush (Token 1 DMTR_OPC_PUSH 101) 101 sample_response,
            DmtrWait (Token 1 DMTR_OPC_PUSH 101), CleanState]) \<and>
   sga_numsegs sample_response = 1"
  by (simp add: tcp_step_defs sample_defs http_work_step_def)

subsection \<open>The envelope\<close>










subsection \<open>The accept in flight\<close>

lemma erase_at_accepts:
  assumes "erase_at xs i = Inr ys"
  shows "accepts_in q xs =
         accepts_in q ys +
         (if token_opcode (xs ! nat i) = DMTR_OPC_ACCEPT \<and> token_qd (xs ! nat i) = q then 1 else 0)"
proof -
  from assms have i: "nat i < length xs" and ys: "ys = take (nat i) xs @ drop (Suc (nat i)) xs"
    by (auto simp: erase_at_def split: if_splits)
  have "xs = take (nat i) xs @ xs ! nat i # drop (Suc (nat i)) xs"
    using i by (rule id_take_nth_drop)
  then have "accepts_in q xs = accepts_in q (take (nat i) xs @ xs ! nat i # drop (Suc (nat i)) xs)"
    by simp
  then show ?thesis
    unfolding ys accepts_in_def by simp
qed

lemma accepts_in_append: "accepts_in q (xs @ ys) = accepts_in q xs + accepts_in q ys"
  by (simp add: accepts_in_def)

lemma forward_request_accepts:
  "forward_request a hw s c = Inr (s', cs) \<Longrightarrow>
   accepts_outstanding s' = accepts_outstanding s \<and> lqd s' = lqd s \<and> waits cs = []"
  by (auto simp: forward_request_def accepts_outstanding_def accepts_in_def Let_def
           split: sum.splits)

lemma serve_request_accepts:
  "serve_request X s c = Inr (s', cs) \<Longrightarrow>
   accepts_outstanding s' = accepts_outstanding s \<and> lqd s' = lqd s \<and> waits cs = []"
  by (auto simp: serve_request_def accepts_outstanding_def accepts_in_def Let_def
           split: sum.splits prod.splits parser_status.splits if_splits)

lemma forward_reply_accepts:
  "forward_reply s c = (s', cs) \<Longrightarrow>
   accepts_outstanding s' = accepts_outstanding s \<and> lqd s' = lqd s \<and> waits cs = []"
  by (auto simp: forward_reply_def accepts_outstanding_def accepts_in_def Let_def)

lemma accept_connection_accepts:
  assumes "accept_connection s c = Inr (s', cs)" and "delivers s c" and "qr_qd c = lqd s"
  shows "accepts_outstanding s' = accepts_outstanding s \<and> lqd s' = lqd s \<and> waits cs = []"
proof -
  from assms(1) obtain ts where e: "erase_at (tokens s) (idx c) = Inr ts"
    and s': "s' = s\<lparr>tokens := ts @ [Token (issued s) DMTR_OPC_POP (qr_ares_qd c),
                                     Token (issued s + 1) DMTR_OPC_ACCEPT (lqd s)],
                    issued := issued s + 2\<rparr>"
    and cs: "cs = [DmtrPop (Token (issued s) DMTR_OPC_POP (qr_ares_qd c)) (qr_ares_qd c),
                   DmtrAccept (Token (issued s + 1) DMTR_OPC_ACCEPT (lqd s)) (lqd s)]"
    and opc: "qr_opcode c = DMTR_OPC_ACCEPT"
    by (auto simp: accept_connection_def Let_def split: sum.splits if_splits)
  from assms(2,3) opc have "token_opcode (tokens s ! nat (idx c)) = DMTR_OPC_ACCEPT"
    and "token_qd (tokens s ! nat (idx c)) = lqd s"
    by (simp_all add: delivers_def)
  with erase_at_accepts [OF e, of "lqd s"]
  have "accepts_in (lqd s) (tokens s) = accepts_in (lqd s) ts + 1" by simp
  then show ?thesis
    by (simp add: s' cs accepts_outstanding_def accepts_in_append) (simp add: accepts_in_def)
qed

lemma erase_other_accepts:
  assumes "erase_at (tokens s) (idx c) = Inr ts" and "delivers s c" and "qr_qd c \<noteq> lqd s"
  shows "accepts_in (lqd s) ts = accepts_in (lqd s) (tokens s)"
proof -
  from assms(2,3) have "token_qd (tokens s ! nat (idx c)) \<noteq> lqd s"
    by (simp add: delivers_def)
  with erase_at_accepts [OF assms(1), of "lqd s"] show ?thesis by simp
qed

lemma pop_completion_accepts:
  assumes "pop_completion X a hw s c = Inr (s', cs)" and "delivers s c" and "qr_qd c \<noteq> lqd s"
  shows "accepts_outstanding s' = accepts_outstanding s \<and> lqd s' = lqd s \<and> waits cs = []"
proof -
  from assms(1) obtain ts where e: "erase_at (tokens s) (idx c) = Inr ts"
    by (auto simp: pop_completion_def split: sum.splits if_splits)
  note k = erase_other_accepts [OF e assms(2,3)]
  show ?thesis
  proof (cases "qr_qd c \<in> set (http_q_pending s)")
    case True
    with assms(1) e have "forward_reply (s\<lparr>tokens := ts\<rparr>) c = (s', cs)"
      by (auto simp: pop_completion_def split: if_splits)
    from forward_reply_accepts [OF this] k show ?thesis
      by (auto simp: accepts_outstanding_def)
  next
    case False
    let ?s1 = "s\<lparr>tokens := ts, num_rcvd := num_rcvd s + 1\<rparr>"
    from False assms(1) e
    have "(split a \<and> forward_request a hw ?s1 c = Inr (s', cs)) \<or>
          (\<not> split a \<and> serve_request X ?s1 c = Inr (s', cs))"
      by (auto simp: pop_completion_def Let_def split: if_splits)
    then show ?thesis
      using forward_request_accepts [of a hw ?s1 c s' cs]
            serve_request_accepts [of X ?s1 c s' cs] k
      by (auto simp: accepts_outstanding_def)
  qed
qed

lemma failed_completion_accepts:
  assumes "failed_completion s c = Inr (s', cs)" and "delivers s c" and "qr_qd c \<noteq> lqd s"
  shows "accepts_outstanding s' = accepts_outstanding s \<and> lqd s' = lqd s \<and> waits cs = []"
proof -
  from assms(1) obtain ts where e: "erase_at (tokens s) (idx c) = Inr ts"
    and s': "s' = s\<lparr>tokens := ts\<rparr>" and cs: "cs = [DmtrClose (qr_qd c)]"
    by (auto simp: failed_completion_def split: sum.splits if_splits)
  from erase_other_accepts [OF e assms(2,3)] show ?thesis
    by (simp add: s' cs accepts_outstanding_def)
qed

lemma tcp_work_step_accepts:
  assumes "tcp_work_step X a hw s c = Inr (s', cs)" and "delivers s c"
      and "status c = 0 \<or> qr_qd c \<noteq> lqd s"
  shows "accepts_outstanding s' = accepts_outstanding s \<and> lqd s' = lqd s \<and>
         waits cs = [tokens s]"
proof -
  from assms(1) obtain cs0 where cs: "cs = DmtrWaitAny (tokens s) # cs0"
    and r: "(if status c = 0 then
              (if qr_qd c = lqd s then accept_connection s c
               else pop_completion X a hw s c)
            else failed_completion s c) = Inr (s', cs0)"
    by (auto simp: tcp_work_step_def split: sum.splits)
  from r assms(2,3)
  have "accepts_outstanding s' = accepts_outstanding s \<and> lqd s' = lqd s \<and> waits cs0 = []"
    using accept_connection_accepts [of s c s' cs0]
          pop_completion_accepts [of X a hw s c s' cs0]
          failed_completion_accepts [of s c s' cs0]
    by (auto split: if_splits)
  then show ?thesis by (simp add: cs)
qed

lemma waits_append: "waits (xs @ ys) = waits xs @ waits ys"
  by (induction xs rule: waits.induct) simp_all

lemma tcp_work_loop_accepts:
  "tcp_work_loop X a hw s cs = Inr (s', calls) \<Longrightarrow> accepts_succeed X a hw s cs \<Longrightarrow>
   accepts_outstanding s' = accepts_outstanding s \<and> lqd s' = lqd s \<and>
   (\<forall>ts \<in> set (waits calls). accepts_in (lqd s) ts = accepts_outstanding s)"
proof (induction cs arbitrary: s calls)
  case Nil
  then show ?case by simp
next
  case (Cons c cs)
  from Cons.prems(1) obtain s1 cs1 calls' where
    st: "tcp_work_step X a hw s c = Inr (s1, cs1)"
    and lp: "tcp_work_loop X a hw s1 cs = Inr (s', calls')"
    and calls: "calls = cs1 @ calls'"
    by (auto split: sum.splits)
  from Cons.prems(2) st have d: "delivers s c" "status c = 0 \<or> qr_qd c \<noteq> lqd s"
    and ok: "accepts_succeed X a hw s1 cs"
    by simp_all
  note one = tcp_work_step_accepts [OF st d]
  note rest = Cons.IH [OF lp ok]
  from one rest show ?case
    by (auto simp: calls waits_append accepts_outstanding_def)
qed

lemma tcp_work_setup_accepts:
  "accepts_outstanding (fst (tcp_work_setup a q)) = 1 \<and> lqd (fst (tcp_work_setup a q)) = q"
  by (simp add: tcp_work_setup_def accepts_outstanding_def accepts_in_def Let_def)

lemma accepts_submitted_append:
  "accepts_submitted q (xs @ ys) = accepts_submitted q xs @ accepts_submitted q ys"
  by (induction q xs rule: accepts_submitted.induct) simp_all

lemma accepts_in_length: "accepts_in q ts = length (accept_tokens q ts)"
  by (simp add: accepts_in_def accept_tokens_def)

lemma erase_at_shape:
  assumes "erase_at xs i = Inr ys"
  shows "nat i < length xs \<and> ys = take (nat i) xs @ drop (Suc (nat i)) xs \<and> set ys \<subseteq> set xs \<and>
         xs ! nat i \<in> set xs"
proof -
  from assms have i: "nat i < length xs" and ys: "ys = take (nat i) xs @ drop (Suc (nat i)) xs"
    by (auto simp: erase_at_def split: if_splits)
  have "set (take (nat i) xs) \<subseteq> set xs" and "set (drop (Suc (nat i)) xs) \<subseteq> set xs"
    by (rule set_take_subset, rule set_drop_subset)
  with i ys show ?thesis by auto
qed

lemma erase_at_accept_tokens:
  assumes "erase_at xs i = Inr ys"
  shows "accept_tokens q xs =
         accept_tokens q (take (nat i) xs) @
         (if token_opcode (xs ! nat i) = DMTR_OPC_ACCEPT \<and> token_qd (xs ! nat i) = q
          then [xs ! nat i] else []) @
         accept_tokens q (drop (Suc (nat i)) xs) \<and>
         accept_tokens q ys =
         accept_tokens q (take (nat i) xs) @ accept_tokens q (drop (Suc (nat i)) xs)"
proof -
  from erase_at_shape [OF assms] have i: "nat i < length xs"
    and ys: "ys = take (nat i) xs @ drop (Suc (nat i)) xs"
    by simp_all
  have "xs = take (nat i) xs @ xs ! nat i # drop (Suc (nat i)) xs"
    using i by (rule id_take_nth_drop)
  then have "accept_tokens q xs =
             accept_tokens q (take (nat i) xs @ xs ! nat i # drop (Suc (nat i)) xs)"
    by simp
  then show ?thesis
    unfolding ys accept_tokens_def by simp
qed

lemma erase_other_accept_tokens:
  assumes "erase_at xs i = Inr ys" and "token_qd (xs ! nat i) \<noteq> q"
  shows "accept_tokens q ys = accept_tokens q xs"
  using erase_at_accept_tokens [OF assms(1), of q] assms(2) by simp

lemma erase_only_accept_token:
  assumes "erase_at xs i = Inr ys" and "token_opcode (xs ! nat i) = DMTR_OPC_ACCEPT"
      and "token_qd (xs ! nat i) = q" and "accept_tokens q xs = [t]"
  shows "accept_tokens q ys = [] \<and> xs ! nat i = t"
proof -
  from erase_at_accept_tokens [OF assms(1), of q] assms(2,3)
  have a: "accept_tokens q xs =
           accept_tokens q (take (nat i) xs) @ [xs ! nat i] @ accept_tokens q (drop (Suc (nat i)) xs)"
    and b: "accept_tokens q ys =
            accept_tokens q (take (nat i) xs) @ accept_tokens q (drop (Suc (nat i)) xs)"
    by simp_all
  from a assms(4) have "accept_tokens q (take (nat i) xs) = [] \<and> xs ! nat i = t \<and>
                        accept_tokens q (drop (Suc (nat i)) xs) = []"
    by (simp add: append_eq_Cons_conv Cons_eq_append_conv)
  with b show ?thesis by simp
qed

lemma forward_request_tokens:
  assumes "forward_request a hw s c = Inr (s', cs)"
  shows "\<exists>new. tokens s' = tokens s @ new \<and>
           (\<forall>x \<in> set new. token_opcode x = DMTR_OPC_POP \<and> token_id x < issued s') \<and>
           issued s \<le> issued s' \<and> lqd s' = lqd s \<and> accepts_submitted q cs = []"
  using assms
  by (auto simp: forward_request_def Let_def split: sum.splits)

lemma serve_request_tokens:
  assumes "serve_request X s c = Inr (s', cs)"
  shows "\<exists>new. tokens s' = tokens s @ new \<and>
           (\<forall>x \<in> set new. token_opcode x = DMTR_OPC_POP \<and> token_id x < issued s') \<and>
           issued s \<le> issued s' \<and> lqd s' = lqd s \<and> accepts_submitted q cs = []"
  using assms
  by (auto simp: serve_request_def Let_def
           split: sum.splits prod.splits parser_status.splits if_splits)

lemma forward_reply_tokens:
  assumes "forward_reply s c = (s', cs)"
  shows "\<exists>new. tokens s' = tokens s @ new \<and>
           (\<forall>x \<in> set new. token_opcode x = DMTR_OPC_POP \<and> token_id x < issued s') \<and>
           issued s \<le> issued s' \<and> lqd s' = lqd s \<and> accepts_submitted q cs = []"
  using assms by (auto simp: forward_reply_def Let_def)

lemma pop_completion_tokens:
  assumes "pop_completion X a hw s c = Inr (s', cs)"
  shows "\<exists>ts new. erase_at (tokens s) (idx c) = Inr ts \<and> tokens s' = ts @ new \<and>
           (\<forall>x \<in> set new. token_opcode x = DMTR_OPC_POP \<and> token_id x < issued s') \<and>
           issued s \<le> issued s' \<and> lqd s' = lqd s \<and> accepts_submitted q cs = []"
proof -
  from assms obtain ts where e: "erase_at (tokens s) (idx c) = Inr ts"
    by (auto simp: pop_completion_def split: sum.splits if_splits)
  show ?thesis
  proof (cases "qr_qd c \<in> set (http_q_pending s)")
    case True
    with assms e have "forward_reply (s\<lparr>tokens := ts\<rparr>) c = (s', cs)"
      by (auto simp: pop_completion_def split: if_splits)
    from forward_reply_tokens [OF this, of q] e show ?thesis by auto
  next
    case False
    let ?s1 = "s\<lparr>tokens := ts, num_rcvd := num_rcvd s + 1\<rparr>"
    from False assms e
    have "(split a \<and> forward_request a hw ?s1 c = Inr (s', cs)) \<or>
          (\<not> split a \<and> serve_request X ?s1 c = Inr (s', cs))"
      by (auto simp: pop_completion_def Let_def split: if_splits)
    then show ?thesis
      using forward_request_tokens [of a hw ?s1 c s' cs q]
            serve_request_tokens [of X ?s1 c s' cs q] e
      by auto
  qed
qed

lemma accept_step_exact:
  assumes "delivers s c" and "status c = 0" and "qr_qd c = lqd s"
      and "qr_opcode c = DMTR_OPC_ACCEPT"
  shows "tcp_work_step X a hw s c =
           Inr (s\<lparr>tokens := take (nat (idx c)) (tokens s) @ drop (Suc (nat (idx c))) (tokens s) @
                             [Token (issued s) DMTR_OPC_POP (qr_ares_qd c),
                              Token (issued s + 1) DMTR_OPC_ACCEPT (lqd s)],
                   issued := issued s + 2\<rparr>,
                [DmtrWaitAny (tokens s),
                 DmtrPop (Token (issued s) DMTR_OPC_POP (qr_ares_qd c)) (qr_ares_qd c),
                 DmtrAccept (Token (issued s + 1) DMTR_OPC_ACCEPT (lqd s)) (lqd s)])"
  using assms
  by (simp add: tcp_work_step_def accept_connection_def erase_at_def delivers_def Let_def)

lemma filter_not_in_snoc:
  "filter (\<lambda>x. x \<notin> set (del @ [d])) sub = filter (\<lambda>x. x \<noteq> d) (filter (\<lambda>x. x \<notin> set del) sub)"
  by (induction sub) auto

lemma accept_tokens_append:
  "accept_tokens q (xs @ ys) = accept_tokens q xs @ accept_tokens q ys"
  by (simp add: accept_tokens_def)

lemma accept_tokens_pops:
  "\<forall>x \<in> set new. token_opcode x = DMTR_OPC_POP \<Longrightarrow> accept_tokens q new = []"
  by (induction new) (auto simp: accept_tokens_def)

lemma accept_step_in_flight:
  assumes st: "tcp_work_step X a hw s c = Inr (s', calls)" and d: "delivers s c"
      and acc: "status c = 0" "qr_qd c = lqd s" and inv: "in_flight_inv s sub del"
  shows "in_flight_inv s' (sub @ accepts_submitted (lqd s) calls) (del @ [tokens s ! nat (idx c)]) \<and>
         lqd s' = lqd s"
proof -
  let ?d = "tokens s ! nat (idx c)"
  let ?ts = "take (nat (idx c)) (tokens s) @ drop (Suc (nat (idx c))) (tokens s)"
  let ?tp = "Token (issued s) DMTR_OPC_POP (qr_ares_qd c)"
  let ?ta = "Token (issued s + 1) DMTR_OPC_ACCEPT (lqd s)"
  from st acc have opc: "qr_opcode c = DMTR_OPC_ACCEPT"
    by (auto simp: tcp_work_step_def accept_connection_def split: sum.splits if_splits)
  from accept_step_exact [OF d acc opc, of X a hw] st
  have s': "s' = s\<lparr>tokens := ?ts @ [?tp, ?ta], issued := issued s + 2\<rparr>"
    and calls: "calls = [DmtrWaitAny (tokens s), DmtrPop ?tp (qr_ares_qd c), DmtrAccept ?ta (lqd s)]"
    by simp_all
  from d have e: "erase_at (tokens s) (idx c) = Inr ?ts"
    by (simp add: erase_at_def delivers_def)
  from d acc opc have dq: "token_qd ?d = lqd s" and dop: "token_opcode ?d = DMTR_OPC_ACCEPT"
    by (simp_all add: delivers_def)
  from inv obtain t where t1: "accept_tokens (lqd s) (tokens s) = [t]"
    and t2: "filter (\<lambda>x. x \<notin> set del) sub = [t]"
    and ids: "\<forall>x \<in> set (tokens s) \<union> set del. token_id x < issued s"
    by (auto simp: in_flight_inv_def)
  from erase_only_accept_token [OF e dop dq t1]
  have none: "accept_tokens (lqd s) ?ts = []" and dt: "?d = t" by simp_all
  from erase_at_shape [OF e] have sub_ts: "set ?ts \<subseteq> set (tokens s)" and din: "?d \<in> set (tokens s)"
    by blast+
  have a1: "accept_tokens (lqd s') (tokens s') = [?ta]"
    using none by (simp add: s' accept_tokens_append) (simp add: accept_tokens_def)
  have fresh: "?ta \<notin> set (del @ [?d])"
  proof
    assume "?ta \<in> set (del @ [?d])"
    then have "?ta \<in> set (tokens s) \<union> set del" using din by auto
    with ids have "token_id ?ta < issued s" by blast
    then show False by simp
  qed
  have "filter (\<lambda>x. x \<notin> set (del @ [?d])) sub = []"
    by (simp only: filter_not_in_snoc t2 dt) simp
  with fresh have a2: "filter (\<lambda>x. x \<notin> set (del @ [?d])) (sub @ accepts_submitted (lqd s) calls) = [?ta]"
    by (simp add: calls)
  have a3: "\<forall>x \<in> set (tokens s') \<union> set (del @ [?d]). token_id x < issued s'"
  proof
    fix x
    assume "x \<in> set (tokens s') \<union> set (del @ [?d])"
    then have "x \<in> set ?ts \<or> x = ?tp \<or> x = ?ta \<or> x \<in> set del \<or> x = ?d"
      by (simp add: s') blast
    with sub_ts din have "x \<in> set (tokens s) \<union> set del \<or> x = ?tp \<or> x = ?ta"
      by blast
    moreover have "token_id y < issued s + 2" if "y \<in> set (tokens s) \<union> set del" for y
    proof -
      from ids that have "token_id y < issued s" by blast
      then show ?thesis by simp
    qed
    ultimately have "token_id x < issued s + 2" by auto
    then show "token_id x < issued s'" by (simp add: s')
  qed
  from a1 a2 a3 show ?thesis
    by (simp add: in_flight_inv_def s')
qed

lemma other_step_in_flight:
  assumes st: "tcp_work_step X a hw s c = Inr (s', calls)" and d: "delivers s c"
      and other: "qr_qd c \<noteq> lqd s" and inv: "in_flight_inv s sub del"
  shows "in_flight_inv s' (sub @ accepts_submitted (lqd s) calls) (del @ [tokens s ! nat (idx c)]) \<and>
         lqd s' = lqd s"
proof -
  let ?d = "tokens s ! nat (idx c)"
  from st obtain cs0 where calls: "calls = DmtrWaitAny (tokens s) # cs0"
    and r: "(if status c = 0 then pop_completion X a hw s c else failed_completion s c) =
            Inr (s', cs0)"
    using other by (auto simp: tcp_work_step_def split: sum.splits if_splits)
  have "\<exists>ts new. erase_at (tokens s) (idx c) = Inr ts \<and> tokens s' = ts @ new \<and>
           (\<forall>x \<in> set new. token_opcode x = DMTR_OPC_POP \<and> token_id x < issued s') \<and>
           issued s \<le> issued s' \<and> lqd s' = lqd s \<and> accepts_submitted (lqd s) cs0 = []"
  proof (cases "status c = 0")
    case True
    with r have "pop_completion X a hw s c = Inr (s', cs0)" by simp
    then show ?thesis by (rule pop_completion_tokens)
  next
    case False
    with r have "failed_completion s c = Inr (s', cs0)" by simp
    then show ?thesis
      by (auto simp: failed_completion_def split: sum.splits if_splits)
  qed
  then obtain ts new where e: "erase_at (tokens s) (idx c) = Inr ts"
    and tk: "tokens s' = ts @ new"
    and nw: "\<forall>x \<in> set new. token_opcode x = DMTR_OPC_POP \<and> token_id x < issued s'"
    and mono: "issued s \<le> issued s'" and l: "lqd s' = lqd s"
    and nosub: "accepts_submitted (lqd s) cs0 = []"
    by blast
  from d other have dq: "token_qd ?d \<noteq> lqd s" by (simp add: delivers_def)
  from inv obtain t where t1: "accept_tokens (lqd s) (tokens s) = [t]"
    and t2: "filter (\<lambda>x. x \<notin> set del) sub = [t]"
    and ids: "\<forall>x \<in> set (tokens s) \<union> set del. token_id x < issued s"
    by (auto simp: in_flight_inv_def)
  from erase_at_shape [OF e] have sub_ts: "set ts \<subseteq> set (tokens s)" and din: "?d \<in> set (tokens s)"
    by blast+
  from nw have "\<forall>x \<in> set new. token_opcode x = DMTR_OPC_POP" by blast
  then have "accept_tokens (lqd s) new = []" by (rule accept_tokens_pops)
  with erase_other_accept_tokens [OF e dq] t1
  have a1: "accept_tokens (lqd s') (tokens s') = [t]"
    by (simp add: tk l accept_tokens_append)
  from t1 have "t \<in> set (accept_tokens (lqd s) (tokens s))" by simp
  then have "token_qd t = lqd s" by (simp add: accept_tokens_def)
  with dq have "t \<noteq> ?d" by auto
  then have a2: "filter (\<lambda>x. x \<notin> set (del @ [?d])) (sub @ accepts_submitted (lqd s) calls) = [t]"
    by (simp only: filter_not_in_snoc) (simp add: calls nosub t2)
  have a3: "\<forall>x \<in> set (tokens s') \<union> set (del @ [?d]). token_id x < issued s'"
  proof
    fix x
    assume "x \<in> set (tokens s') \<union> set (del @ [?d])"
    then have "x \<in> set ts \<or> x \<in> set new \<or> x \<in> set del \<or> x = ?d"
      by (simp add: tk) blast
    with sub_ts din have "x \<in> set (tokens s) \<union> set del \<or> x \<in> set new"
      by blast
    then show "token_id x < issued s'"
    proof
      assume "x \<in> set (tokens s) \<union> set del"
      with ids have "token_id x < issued s" by blast
      with mono show ?thesis by simp
    next
      assume "x \<in> set new"
      with nw show ?thesis by blast
    qed
  qed
  from a1 a2 a3 l show ?thesis
    by (simp add: in_flight_inv_def)
qed

lemma tcp_work_loop_in_flight:
  "tcp_work_loop X a hw s cs = Inr (s', calls) \<Longrightarrow> accepts_succeed X a hw s cs \<Longrightarrow>
   in_flight_inv s sub del \<Longrightarrow>
   in_flight_inv s' (sub @ accepts_submitted (lqd s) calls) (del @ completed_tokens X a hw s cs)"
proof (induction cs arbitrary: s calls sub del)
  case Nil
  then show ?case by simp
next
  case (Cons c cs)
  from Cons.prems(1) obtain s1 cs1 calls' where
    st: "tcp_work_step X a hw s c = Inr (s1, cs1)"
    and lp: "tcp_work_loop X a hw s1 cs = Inr (s', calls')"
    and calls: "calls = cs1 @ calls'"
    by (auto split: sum.splits)
  from Cons.prems(2) st have d: "delivers s c" and ne: "status c = 0 \<or> qr_qd c \<noteq> lqd s"
    and ok: "accepts_succeed X a hw s1 cs"
    by simp_all
  have one: "in_flight_inv s1 (sub @ accepts_submitted (lqd s) cs1) (del @ [tokens s ! nat (idx c)]) \<and>
             lqd s1 = lqd s"
  proof (cases "qr_qd c = lqd s")
    case True
    with ne have "status c = 0" by simp
    from accept_step_in_flight [OF st d this True Cons.prems(3)] show ?thesis .
  next
    case False
    from other_step_in_flight [OF st d False Cons.prems(3)] show ?thesis .
  qed
  then have inv1: "in_flight_inv s1 (sub @ accepts_submitted (lqd s) cs1) (del @ [tokens s ! nat (idx c)])"
    and l: "lqd s1 = lqd s"
    by simp_all
  from Cons.IH [OF lp ok inv1] show ?case
    by (simp add: calls accepts_submitted_append l st)
qed

lemma tcp_work_setup_in_flight:
  "in_flight_inv (fst (tcp_work_setup a q)) (accepts_submitted q (snd (tcp_work_setup a q))) [] \<and>
   tokens (fst (tcp_work_setup a q)) = [Token 0 DMTR_OPC_ACCEPT q] \<and>
   accepts_submitted q (snd (tcp_work_setup a q)) = [Token 0 DMTR_OPC_ACCEPT q]"
  by (simp add: tcp_work_setup_def in_flight_inv_def accept_tokens_def Let_def)

text \<open>
  C6 (as amended). As long as the datapath keeps its contract and no operation on the
  listening descriptor completes with an error, exactly one accept is outstanding on the
  listening descriptor at every suspension point of the loop: in the token set of every
  \<^verbatim>\<open>dmtr_wait_any\<close> call made so far, and in the token set the next one will be given; and
  this token is the one accept submitted so far, at setup or in the loop, that has not
  completed. Setup submits one accept, with the token 0; and an iteration that is given a
  successful completion of the accept removes the completed token from the set, submits one
  pop on the new connection and then exactly one accept on the listening descriptor, and
  adds the tokens of both.
\<close>

theorem one_accept_outstanding:
  assumes "tcp_work_loop X a hw (fst (tcp_work_setup a q)) cs = Inr (s, calls)"
      and "accepts_succeed X a hw (fst (tcp_work_setup a q)) cs"
  shows "accepts_outstanding s = 1 \<and> lqd s = q \<and>
         (\<forall>ts \<in> set (waits calls). accepts_in q ts = 1) \<and>
         (\<exists>t. accepts_in_flight q (snd (tcp_work_setup a q) @ calls)
                (completed_tokens X a hw (fst (tcp_work_setup a q)) cs) = [t] \<and>
              accept_tokens q (tokens s) = [t]) \<and>
         tokens (fst (tcp_work_setup a q)) = [Token 0 DMTR_OPC_ACCEPT q] \<and>
         accepts_submitted q (snd (tcp_work_setup a q)) = [Token 0 DMTR_OPC_ACCEPT q] \<and>
         (\<forall>s1 c. delivers s1 c \<and> status c = 0 \<and> qr_qd c = lqd s1 \<and>
                 qr_opcode c = DMTR_OPC_ACCEPT \<longrightarrow>
            tcp_work_step X a hw s1 c =
              Inr (s1\<lparr>tokens := take (nat (idx c)) (tokens s1) @
                                 drop (Suc (nat (idx c))) (tokens s1) @
                                 [Token (issued s1) DMTR_OPC_POP (qr_ares_qd c),
                                  Token (issued s1 + 1) DMTR_OPC_ACCEPT (lqd s1)],
                       issued := issued s1 + 2\<rparr>,
                   [DmtrWaitAny (tokens s1),
                    DmtrPop (Token (issued s1) DMTR_OPC_POP (qr_ares_qd c)) (qr_ares_qd c),
                    DmtrAccept (Token (issued s1 + 1) DMTR_OPC_ACCEPT (lqd s1)) (lqd s1)]))"
proof -
  note old = tcp_work_loop_accepts [OF assms] tcp_work_setup_accepts [of a q]
  then have 1: "accepts_outstanding s = 1" and 2: "lqd s = q"
    and 3: "\<forall>ts \<in> set (waits calls). accepts_in q ts = 1"
    by simp_all
  note su = tcp_work_setup_in_flight [of a q]
  from su have i0: "in_flight_inv (fst (tcp_work_setup a q))
                      (accepts_submitted q (snd (tcp_work_setup a q))) []"
    and 5: "tokens (fst (tcp_work_setup a q)) = [Token 0 DMTR_OPC_ACCEPT q]"
    and 6: "accepts_submitted q (snd (tcp_work_setup a q)) = [Token 0 DMTR_OPC_ACCEPT q]"
    by blast+
  have l0: "lqd (fst (tcp_work_setup a q)) = q" using old(2) by simp
  from tcp_work_loop_in_flight [OF assms i0]
  have "in_flight_inv s (accepts_submitted q (snd (tcp_work_setup a q) @ calls))
          (completed_tokens X a hw (fst (tcp_work_setup a q)) cs)"
    by (simp add: l0 accepts_submitted_append)
  then have 4: "\<exists>t. accepts_in_flight q (snd (tcp_work_setup a q) @ calls)
                (completed_tokens X a hw (fst (tcp_work_setup a q)) cs) = [t] \<and>
              accept_tokens q (tokens s) = [t]"
    using 2 by (auto simp: in_flight_inv_def accepts_in_flight_def)
  have 7: "\<forall>s1 c. delivers s1 c \<and> status c = 0 \<and> qr_qd c = lqd s1 \<and>
                 qr_opcode c = DMTR_OPC_ACCEPT \<longrightarrow>
            tcp_work_step X a hw s1 c =
              Inr (s1\<lparr>tokens := take (nat (idx c)) (tokens s1) @
                                 drop (Suc (nat (idx c))) (tokens s1) @
                                 [Token (issued s1) DMTR_OPC_POP (qr_ares_qd c),
                                  Token (issued s1 + 1) DMTR_OPC_ACCEPT (lqd s1)],
                       issued := issued s1 + 2\<rparr>,
                   [DmtrWaitAny (tokens s1),
                    DmtrPop (Token (issued s1) DMTR_OPC_POP (qr_ares_qd c)) (qr_ares_qd c),
                    DmtrAccept (Token (issued s1 + 1) DMTR_OPC_ACCEPT (lqd s1)) (lqd s1)])"
    using accept_step_exact [of _ _ X a hw] by blast
  from 1 2 3 4 5 6 7 show ?thesis by (intro conjI)
qed

text \<open>
  The theorem on a run in joined mode: a connection is accepted, then its first request
  is served.
\<close>

theorem one_accept_outstanding_witness:
  "accepts_succeed sample_ext (sample_args ONE_TO_ONE False) []
     (fst (tcp_work_setup (sample_args ONE_TO_ONE False) 5))
     [accepted 5 7 0 0, popped 7 sample_request 0] \<and>
   fst (projr (tcp_work_loop sample_ext (sample_args ONE_TO_ONE False) []
     (fst (tcp_work_setup (sample_args ONE_TO_ONE False) 5))
     [accepted 5 7 0 0, popped 7 sample_request 0])) =
     \<lparr>tokens = [Token 2 DMTR_OPC_ACCEPT 5, Token 4 DMTR_OPC_POP 7], http_q_pending = [],
      num_rcvd = 1, lqd = 5, issued = 5\<rparr> \<and>
   accepts_outstanding
     \<lparr>tokens = [Token 2 DMTR_OPC_ACCEPT 5, Token 4 DMTR_OPC_POP 7], http_q_pending = [],
      num_rcvd = 1, lqd = 5, issued = 5\<rparr> = 1 \<and>
   waits (snd (projr (tcp_work_loop sample_ext (sample_args ONE_TO_ONE False) []
     (fst (tcp_work_setup (sample_args ONE_TO_ONE False) 5))
     [accepted 5 7 0 0, popped 7 sample_request 0]))) =
     [[Token 0 DMTR_OPC_ACCEPT 5], [Token 1 DMTR_OPC_POP 7, Token 2 DMTR_OPC_ACCEPT 5]] \<and>
   accepts_in 5 [Token 0 DMTR_OPC_ACCEPT 5] = 1 \<and>
   accepts_in 5 [Token 1 DMTR_OPC_POP 7, Token 2 DMTR_OPC_ACCEPT 5] = 1 \<and>
   completed_tokens sample_ext (sample_args ONE_TO_ONE False) []
     (fst (tcp_work_setup (sample_args ONE_TO_ONE False) 5))
     [accepted 5 7 0 0, popped 7 sample_request 0] =
     [Token 0 DMTR_OPC_ACCEPT 5, Token 1 DMTR_OPC_POP 7] \<and>
   accepts_in_flight 5
     (snd (tcp_work_setup (sample_args ONE_TO_ONE False) 5) @
      snd (projr (tcp_work_loop sample_ext (sample_args ONE_TO_ONE False) []
        (fst (tcp_work_setup (sample_args ONE_TO_ONE False) 5))
        [accepted 5 7 0 0, popped 7 sample_request 0])))
     (completed_tokens sample_ext (sample_args ONE_TO_ONE False) []
        (fst (tcp_work_setup (sample_args ONE_TO_ONE False) 5))
        [accepted 5 7 0 0, popped 7 sample_request 0]) = [Token 2 DMTR_OPC_ACCEPT 5] \<and>
   tcp_work_step sample_ext (sample_args ONE_TO_ONE False) []
     \<lparr>tokens = [Token 0 DMTR_OPC_ACCEPT 5], http_q_pending = [], num_rcvd = 0, lqd = 5,
      issued = 1\<rparr> (accepted 5 7 0 0) =
     Inr (\<lparr>tokens = [Token 1 DMTR_OPC_POP 7, Token 2 DMTR_OPC_ACCEPT 5], http_q_pending = [],
            num_rcvd = 0, lqd = 5, issued = 3\<rparr>,
          [DmtrWaitAny [Token 0 DMTR_OPC_ACCEPT 5], DmtrPop (Token 1 DMTR_OPC_POP 7) 7,
           DmtrAccept (Token 2 DMTR_OPC_ACCEPT 5) 5])"
proof -
  let ?a = "sample_args ONE_TO_ONE False"
  let ?s0 = "fst (tcp_work_setup ?a 5)"
  let ?s0' = "\<lparr>tokens = [Token 0 DMTR_OPC_ACCEPT 5], http_q_pending = [], num_rcvd = 0,
               lqd = 5, issued = 1\<rparr>"
  let ?s1 = "\<lparr>tokens = [Token 1 DMTR_OPC_POP 7, Token 2 DMTR_OPC_ACCEPT 5], http_q_pending = [],
              num_rcvd = 0, lqd = 5, issued = 3\<rparr>"
  let ?s2 = "\<lparr>tokens = [Token 2 DMTR_OPC_ACCEPT 5, Token 4 DMTR_OPC_POP 7], http_q_pending = [],
              num_rcvd = 1, lqd = 5, issued = 5\<rparr>"
  let ?cs1 = "[DmtrWaitAny [Token 0 DMTR_OPC_ACCEPT 5], DmtrPop (Token 1 DMTR_OPC_POP 7) 7,
               DmtrAccept (Token 2 DMTR_OPC_ACCEPT 5) 5]"
  let ?cs2 = "[DmtrWaitAny [Token 1 DMTR_OPC_POP 7, Token 2 DMTR_OPC_ACCEPT 5],
               Free (Ptr 500 sample_request),
               DmtrPush (Token 3 DMTR_OPC_PUSH 7) 7
                 (sample_response\<lparr>sga_segs1 := \<lparr>sgaseg_buf = Null, sgaseg_len = 0\<rparr>\<rparr>),
               DmtrWait (Token 3 DMTR_OPC_PUSH 7), Free (Ptr 300 ''HTTP/1.1 404 Not Found''),
               CleanState, DmtrPop (Token 4 DMTR_OPC_POP 7) 7]"
  let ?cs = "[accepted 5 7 0 0, popped 7 sample_request 0]"
  have s0: "?s0 = ?s0'"
    by (simp add: tcp_work_setup_def Let_def)
  have st1: "tcp_work_step sample_ext ?a [] ?s0 (accepted 5 7 0 0) = Inr (?s1, ?cs1)"
    by (simp only: s0) (simp add: tcp_step_defs sample_defs)
  have st2: "tcp_work_step sample_ext ?a [] ?s1 (popped 7 sample_request 0) = Inr (?s2, ?cs2)"
    by (simp add: tcp_step_defs sample_defs)
  have d1: "delivers ?s0 (accepted 5 7 0 0)"
    by (simp only: s0) (simp add: delivers_def accepted_def)
  have d2: "delivers ?s1 (popped 7 sample_request 0)" by (simp add: delivers_def popped_def)
  have ok: "accepts_succeed sample_ext ?a [] ?s0 ?cs"
    by (simp only: accepts_succeed.simps st1 st2 sum.case prod.case d1 d2 simp_thms)
       (simp add: accepted_def popped_def)
  have lp: "tcp_work_loop sample_ext ?a [] ?s0 ?cs = Inr (?s2, ?cs1 @ ?cs2)"
    by (simp only: tcp_work_loop.simps st1 st2 sum.case prod.case append_Nil2)
  have fin: "fst (projr (tcp_work_loop sample_ext ?a [] ?s0 ?cs)) = ?s2"
    by (simp only: lp sum.sel fst_conv)
  have calls: "snd (projr (tcp_work_loop sample_ext ?a [] ?s0 ?cs)) = ?cs1 @ ?cs2"
    by (simp only: lp sum.sel snd_conv)
  have ws: "waits (snd (projr (tcp_work_loop sample_ext ?a [] ?s0 ?cs))) =
            [[Token 0 DMTR_OPC_ACCEPT 5], [Token 1 DMTR_OPC_POP 7, Token 2 DMTR_OPC_ACCEPT 5]]"
    by (simp only: calls) simp
  have ct: "completed_tokens sample_ext ?a [] ?s0 ?cs =
            [Token 0 DMTR_OPC_ACCEPT 5, Token 1 DMTR_OPC_POP 7]"
    by (simp only: completed_tokens.simps st1 st2 sum.case prod.case)
       (simp add: s0 accepted_def popped_def)
  note inv = one_accept_outstanding [OF lp ok]
  from inv have out: "accepts_outstanding ?s2 = 1"
    by (rule conjunct1)
  from inv have "\<forall>ts \<in> set (waits (?cs1 @ ?cs2)). accepts_in 5 ts = 1"
    by (elim conjE)
  then have a1: "accepts_in 5 [Token 0 DMTR_OPC_ACCEPT 5] = 1"
    and a2: "accepts_in 5 [Token 1 DMTR_OPC_POP 7, Token 2 DMTR_OPC_ACCEPT 5] = 1"
    by simp_all
  from inv obtain t where
    fl: "accepts_in_flight 5 (snd (tcp_work_setup ?a 5) @ ?cs1 @ ?cs2)
           (completed_tokens sample_ext ?a [] ?s0 ?cs) = [t]"
    and tk: "accept_tokens 5 (tokens ?s2) = [t]"
    by blast
  from tk have "t = Token 2 DMTR_OPC_ACCEPT 5" by (simp add: accept_tokens_def)
  with fl have fl': "accepts_in_flight 5
     (snd (tcp_work_setup ?a 5) @ snd (projr (tcp_work_loop sample_ext ?a [] ?s0 ?cs)))
     (completed_tokens sample_ext ?a [] ?s0 ?cs) = [Token 2 DMTR_OPC_ACCEPT 5]"
    by (simp only: calls)
  have acc: "delivers ?s0' (accepted 5 7 0 0) \<and> status (accepted 5 7 0 0) = 0 \<and>
             qr_qd (accepted 5 7 0 0) = lqd ?s0' \<and> qr_opcode (accepted 5 7 0 0) = DMTR_OPC_ACCEPT"
    by (simp add: delivers_def accepted_def)
  from inv have "\<forall>s1 c. delivers s1 c \<and> status c = 0 \<and> qr_qd c = lqd s1 \<and>
                 qr_opcode c = DMTR_OPC_ACCEPT \<longrightarrow>
            tcp_work_step sample_ext ?a [] s1 c =
              Inr (s1\<lparr>tokens := take (nat (idx c)) (tokens s1) @
                                 drop (Suc (nat (idx c))) (tokens s1) @
                                 [Token (issued s1) DMTR_OPC_POP (qr_ares_qd c),
                                  Token (issued s1 + 1) DMTR_OPC_ACCEPT (lqd s1)],
                       issued := issued s1 + 2\<rparr>,
                   [DmtrWaitAny (tokens s1),
                    DmtrPop (Token (issued s1) DMTR_OPC_POP (qr_ares_qd c)) (qr_ares_qd c),
                    DmtrAccept (Token (issued s1 + 1) DMTR_OPC_ACCEPT (lqd s1)) (lqd s1)])"
    by (elim conjE)
  with acc have "tcp_work_step sample_ext ?a [] ?s0' (accepted 5 7 0 0) =
              Inr (?s0'\<lparr>tokens := take (nat (idx (accepted 5 7 0 0))) (tokens ?s0') @
                                 drop (Suc (nat (idx (accepted 5 7 0 0)))) (tokens ?s0') @
                                 [Token (issued ?s0') DMTR_OPC_POP (qr_ares_qd (accepted 5 7 0 0)),
                                  Token (issued ?s0' + 1) DMTR_OPC_ACCEPT (lqd ?s0')],
                       issued := issued ?s0' + 2\<rparr>,
                   [DmtrWaitAny (tokens ?s0'),
                    DmtrPop (Token (issued ?s0') DMTR_OPC_POP (qr_ares_qd (accepted 5 7 0 0)))
                      (qr_ares_qd (accepted 5 7 0 0)),
                    DmtrAccept (Token (issued ?s0' + 1) DMTR_OPC_ACCEPT (lqd ?s0')) (lqd ?s0')])"
    by blast
  then have ex: "tcp_work_step sample_ext ?a [] ?s0' (accepted 5 7 0 0) = Inr (?s1, ?cs1)"
    by (simp add: accepted_def)
  from ok fin out ws a1 a2 ct fl' ex show ?thesis by (intro conjI)
qed

text \<open>
  C6 as stated fails: when the accept submitted at setup completes with
  \<^verbatim>\<open>ECONNABORTED\<close>, the worker closes the listening descriptor and drops the token; it
  reaches the next suspension point with no accept outstanding.
\<close>

theorem failed_accept_counterexample:
  "delivers (fst (tcp_work_setup (sample_args ONE_TO_ONE False) 5)) (accepted 5 0 ECONNABORTED 0) \<and>
   tcp_work_step sample_ext (sample_args ONE_TO_ONE False) []
     (fst (tcp_work_setup (sample_args ONE_TO_ONE False) 5)) (accepted 5 0 ECONNABORTED 0) =
   Inr (\<lparr>tokens = [], http_q_pending = [], num_rcvd = 0, lqd = 5, issued = 1\<rparr>,
        [DmtrWaitAny [Token 0 DMTR_OPC_ACCEPT 5], DmtrClose 5]) \<and>
   accepts_outstanding \<lparr>tokens = [], http_q_pending = [], num_rcvd = 0, lqd = 5, issued = 1\<rparr> = 0"
  by (simp add: tcp_step_defs sample_defs tcp_work_setup_def delivers_def
      accepts_outstanding_def accepts_in_def)

subsection \<open>Serialisation of the pops\<close>

lemma serial_scan_append:
  "serial_scan q st (xs @ ys) =
   (case serial_scan q st xs of None \<Rightarrow> None | Some st' \<Rightarrow> serial_scan q st' ys)"
  by (induction xs arbitrary: st) (auto split: option.splits)

lemma forward_request_scan:
  assumes "forward_request a hw s c = Inr (s', cs)" and "q \<notin> out_qfd ` set hw"
  shows "settled (serial_scan q (pend, d, False) cs)"
  using assms
  by (auto simp: forward_request_def worker_at_def settled_def Let_def
           split: sum.splits if_splits)

lemma serve_request_scan:
  assumes "serve_request X s c = Inr (s', cs)"
  shows "settled (serial_scan q (pend, d, False) cs)"
  using assms
  by (auto simp: serve_request_def settled_def Let_def
           split: sum.splits prod.splits parser_status.splits if_splits)

lemma forward_reply_scan:
  assumes "forward_reply s c = (s', cs)"
  shows "settled (serial_scan q (pend, d, False) cs)"
  using assms by (auto simp: forward_reply_def settled_def Let_def)

lemma pop_completion_scan:
  assumes "pop_completion X a hw s c = Inr (s', cs)" and "q \<notin> out_qfd ` set hw"
  shows "settled (serial_scan q (pend, d, False) cs)"
proof -
  from assms(1) obtain ts where e: "erase_at (tokens s) (idx c) = Inr ts"
    by (auto simp: pop_completion_def split: sum.splits if_splits)
  show ?thesis
  proof (cases "qr_qd c \<in> set (http_q_pending s)")
    case True
    with assms(1) e have "forward_reply (s\<lparr>tokens := ts\<rparr>) c = (s', cs)"
      by (auto simp: pop_completion_def split: if_splits)
    then show ?thesis by (rule forward_reply_scan)
  next
    case False
    let ?s1 = "s\<lparr>tokens := ts, num_rcvd := num_rcvd s + 1\<rparr>"
    from False assms(1) e
    have "(split a \<and> forward_request a hw ?s1 c = Inr (s', cs)) \<or>
          (\<not> split a \<and> serve_request X ?s1 c = Inr (s', cs))"
      by (auto simp: pop_completion_def Let_def split: if_splits)
    then show ?thesis
      using forward_request_scan [of a hw ?s1 c s' cs q pend d]
            serve_request_scan [of X ?s1 c s' cs q pend d] assms(2)
      by blast
  qed
qed

lemma accept_connection_scan:
  assumes "accept_connection s c = Inr (s', cs)"
  shows "settled (serial_scan q (pend, d, False) cs)"
  using assms
  by (auto simp: accept_connection_def settled_def Let_def split: sum.splits if_splits)

lemma failed_completion_scan:
  assumes "failed_completion s c = Inr (s', cs)"
  shows "settled (serial_scan q (pend, d, False) cs)"
  using assms
  by (auto simp: failed_completion_def settled_def split: sum.splits if_splits)

lemma tcp_work_step_scan:
  assumes "tcp_work_step X a hw s c = Inr (s', calls)" and "q \<notin> out_qfd ` set hw"
  shows "settled (serial_scan q (pend, d, False) calls)"
proof -
  from assms obtain cs0 where cs: "calls = DmtrWaitAny (tokens s) # cs0"
    and r: "(if status c = 0 then
              (if qr_qd c = lqd s then accept_connection s c
               else pop_completion X a hw s c)
            else failed_completion s c) = Inr (s', cs0)"
    by (auto simp: tcp_work_step_def split: sum.splits)
  from r assms(2) have "settled (serial_scan q (pend, d, False) cs0)"
    using accept_connection_scan [of s c s' cs0 q pend d]
          pop_completion_scan [of X a hw s c s' cs0 q pend d]
          failed_completion_scan [of s c s' cs0 q pend d]
    by (auto split: if_splits)
  then show ?thesis by (simp add: cs)
qed

lemma tcp_work_loop_scan:
  "tcp_work_loop X a hw s cs = Inr (s', calls) \<Longrightarrow> q \<notin> out_qfd ` set hw \<Longrightarrow>
   settled (serial_scan q (pend, d, False) calls)"
proof (induction cs arbitrary: s calls pend d)
  case Nil
  then show ?case by (simp add: settled_def)
next
  case (Cons c cs)
  from Cons.prems(1) obtain s1 cs1 calls' where
    st: "tcp_work_step X a hw s c = Inr (s1, cs1)"
    and lp: "tcp_work_loop X a hw s1 cs = Inr (s', calls')"
    and calls: "calls = cs1 @ calls'"
    by (auto split: sum.splits)
  from tcp_work_step_scan [OF st Cons.prems(2), of pend d]
  obtain pend1 d1 where one: "serial_scan q (pend, d, False) cs1 = Some (pend1, d1, False)"
    by (auto simp: settled_def split: option.splits)
  from Cons.IH [OF lp Cons.prems(2), of pend1 d1] show ?case
    by (simp add: calls serial_scan_append one)
qed

lemma forward_request_pops:
  assumes "forward_request a hw s c = Inr (s', cs)"
  shows "\<exists>w\<in>set hw. pops_submitted cs = [out_qfd w] \<and>
           http_q_pending s' = http_q_pending s @ [out_qfd w]"
  using assms
  by (auto simp: forward_request_def worker_at_def Let_def split: sum.splits if_splits)

lemma request_step_pops:
  assumes "tcp_work_step X a hw s c = Inr (s', calls)" and "split a" and "is_request s c"
  shows "\<exists>w\<in>set hw. pops_submitted calls = [out_qfd w] \<and>
           http_q_pending s' = http_q_pending s @ [out_qfd w]"
proof -
  from assms obtain s0 cs where f: "forward_request a hw s0 c = Inr (s', cs)"
    and p: "http_q_pending s0 = http_q_pending s"
    and calls: "calls = DmtrWaitAny (tokens s) # cs"
    by (auto simp: tcp_work_step_def pop_completion_def is_request_def Let_def
             split: sum.splits if_splits)
  from forward_request_pops [OF f] show ?thesis by (simp add: calls p)
qed

text \<open>
  C7. Over any run of the connection worker's loop that does not fail, and for every
  descriptor \<open>q\<close> that is not the output queue of a compute worker, the pops are serialised:
  each pop on \<open>q\<close> is the first pop on a connection just accepted, or comes after a push to
  \<open>q\<close> and the wait for that push, with no other pop on \<open>q\<close> in between. In particular, in
  split mode the iteration that forwards a new request submits exactly one pop, on the output
  queue of one of the compute workers, which it records as pending: the client is not re-armed
  there.
\<close>

theorem client_pops_serialised:
  assumes "tcp_work_loop X a hw s cs = Inr (s', calls)" and "q \<notin> out_qfd ` set hw"
  shows "pops_serialised q calls \<and>
         (\<forall>s1 c s2 cs1.
            split a \<and> is_request s1 c \<and> tcp_work_step X a hw s1 c = Inr (s2, cs1) \<longrightarrow>
            (\<exists>w\<in>set hw. pops_submitted cs1 = [out_qfd w] \<and>
                         http_q_pending s2 = http_q_pending s1 @ [out_qfd w]))"
  using tcp_work_loop_scan [OF assms, of "[]" False] request_step_pops [of X a hw]
  by (simp add: pops_serialised_def) blast

text \<open>
  The theorem on a run in split mode: the connection 7 is accepted, its request is forwarded
  to the second compute worker, and the reply is pushed to 7 before 7 is armed again.
\<close>

theorem client_pops_serialised_witness:
  "7 \<notin> out_qfd ` set sample_workers \<and>
   snd (projr (tcp_work_loop sample_ext (sample_args RR True) sample_workers
     (fst (tcp_work_setup (sample_args RR True) 5))
     [accepted 5 7 0 0, popped 7 sample_request 0, replied 103 sample_response 1])) =
     [DmtrWaitAny [Token 0 DMTR_OPC_ACCEPT 5], DmtrPop (Token 1 DMTR_OPC_POP 7) 7,
      DmtrAccept (Token 2 DMTR_OPC_ACCEPT 5) 5,
      DmtrWaitAny [Token 1 DMTR_OPC_POP 7, Token 2 DMTR_OPC_ACCEPT 5],
      DmtrPush (Token 3 DMTR_OPC_PUSH 102) 102 sample_forwarded,
      DmtrWait (Token 3 DMTR_OPC_PUSH 102), DmtrPop (Token 4 DMTR_OPC_POP 103) 103,
      DmtrWaitAny [Token 2 DMTR_OPC_ACCEPT 5, Token 4 DMTR_OPC_POP 103],
      DmtrPush (Token 5 DMTR_OPC_PUSH 7) 7 sample_response,
      DmtrWait (Token 5 DMTR_OPC_PUSH 7), Free (Ptr 300 ''HTTP/1.1 404 Not Found''),
      DmtrPop (Token 6 DMTR_OPC_POP 7) 7] \<and>
   pops_serialised 7 (snd (projr (tcp_work_loop sample_ext (sample_args RR True) sample_workers
     (fst (tcp_work_setup (sample_args RR True) 5))
     [accepted 5 7 0 0, popped 7 sample_request 0, replied 103 sample_response 1]))) \<and>
   pops_submitted (snd (projr (tcp_work_step sample_ext (sample_args RR True) sample_workers
     sample_state (popped 7 sample_request 0)))) = [103]"
proof -
  let ?a = "sample_args RR True"
  let ?s0 = "fst (tcp_work_setup ?a 5)"
  let ?s1 = "sample_state"
  let ?s2 = "\<lparr>tokens = [Token 2 DMTR_OPC_ACCEPT 5, Token 4 DMTR_OPC_POP 103],
              http_q_pending = [103], num_rcvd = 1, lqd = 5, issued = 5\<rparr>"
  let ?s3 = "\<lparr>tokens = [Token 2 DMTR_OPC_ACCEPT 5, Token 6 DMTR_OPC_POP 7],
              http_q_pending = [], num_rcvd = 1, lqd = 5, issued = 7\<rparr>"
  let ?cs1 = "[DmtrWaitAny [Token 0 DMTR_OPC_ACCEPT 5], DmtrPop (Token 1 DMTR_OPC_POP 7) 7,
               DmtrAccept (Token 2 DMTR_OPC_ACCEPT 5) 5]"
  let ?cs2 = "[DmtrWaitAny [Token 1 DMTR_OPC_POP 7, Token 2 DMTR_OPC_ACCEPT 5],
               DmtrPush (Token 3 DMTR_OPC_PUSH 102) 102 sample_forwarded,
               DmtrWait (Token 3 DMTR_OPC_PUSH 102), DmtrPop (Token 4 DMTR_OPC_POP 103) 103]"
  let ?cs3 = "[DmtrWaitAny [Token 2 DMTR_OPC_ACCEPT 5, Token 4 DMTR_OPC_POP 103],
               DmtrPush (Token 5 DMTR_OPC_PUSH 7) 7 sample_response,
               DmtrWait (Token 5 DMTR_OPC_PUSH 7), Free (Ptr 300 ''HTTP/1.1 404 Not Found''),
               DmtrPop (Token 6 DMTR_OPC_POP 7) 7]"
  let ?cs = "[accepted 5 7 0 0, popped 7 sample_request 0, replied 103 sample_response 1]"
  have s0: "?s0 = \<lparr>tokens = [Token 0 DMTR_OPC_ACCEPT 5], http_q_pending = [], num_rcvd = 0,
                   lqd = 5, issued = 1\<rparr>"
    by (simp add: tcp_work_setup_def Let_def)
  have 1: "tcp_work_step sample_ext ?a sample_workers ?s0 (accepted 5 7 0 0) = Inr (?s1, ?cs1)"
    by (simp only: s0) (simp add: tcp_step_defs sample_defs)
  have 2: "tcp_work_step sample_ext ?a sample_workers ?s1 (popped 7 sample_request 0) =
           Inr (?s2, ?cs2)"
    by (simp add: tcp_step_defs sample_defs)
  have 3: "tcp_work_step sample_ext ?a sample_workers ?s2 (replied 103 sample_response 1) =
           Inr (?s3, ?cs3)"
    by (simp add: tcp_step_defs sample_defs)
  have lp: "tcp_work_loop sample_ext ?a sample_workers ?s0 ?cs = Inr (?s3, ?cs1 @ ?cs2 @ ?cs3 @ [])"
    by (simp only: tcp_work_loop.simps 1 2 3 sum.case prod.case)
  have q: "7 \<notin> out_qfd ` set sample_workers" by (simp add: sample_workers_def)
  have calls: "snd (projr (tcp_work_loop sample_ext ?a sample_workers ?s0 ?cs)) =
               ?cs1 @ ?cs2 @ ?cs3 @ []"
    by (simp only: lp sum.sel snd_conv)
  have m: "split ?a \<and> is_request ?s1 (popped 7 sample_request 0) \<and>
           tcp_work_step sample_ext ?a sample_workers ?s1 (popped 7 sample_request 0) =
           Inr (?s2, ?cs2)"
    using 2 by (simp add: is_request_def sample_defs)
  note ser = client_pops_serialised [OF lp q]
  from ser have a: "pops_serialised 7 (?cs1 @ ?cs2 @ ?cs3 @ [])" by (rule conjunct1)
  from ser m obtain w where "w \<in> set sample_workers"
    and "pops_submitted ?cs2 = [out_qfd w]" and "http_q_pending ?s2 = http_q_pending ?s1 @ [out_qfd w]"
    by blast
  then have b: "pops_submitted ?cs2 = [103]" by (simp add: sample_state_def)
  have c: "snd (projr (tcp_work_step sample_ext ?a sample_workers ?s1 (popped 7 sample_request 0)))
           = ?cs2"
    by (simp only: 2 sum.sel snd_conv)
  from q a b show ?thesis
    by (simp only: calls c) simp
qed

subsection \<open>Round robin\<close>

lemma forward_request_num_rcvd:
  "forward_request a hw s c = Inr (s', cs) \<Longrightarrow> num_rcvd s' = num_rcvd s"
  by (auto simp: forward_request_def Let_def split: sum.splits)

lemma serve_request_num_rcvd:
  "serve_request X s c = Inr (s', cs) \<Longrightarrow> num_rcvd s' = num_rcvd s"
  by (auto simp: serve_request_def Let_def
           split: sum.splits prod.splits parser_status.splits if_splits)

lemma pop_completion_num_rcvd:
  assumes "pop_completion X a hw s c = Inr (s', cs)"
  shows "num_rcvd s' = num_rcvd s + (if qr_qd c \<in> set (http_q_pending s) then 0 else 1)"
proof -
  from assms obtain ts where e: "erase_at (tokens s) (idx c) = Inr ts"
    by (auto simp: pop_completion_def split: sum.splits if_splits)
  show ?thesis
  proof (cases "qr_qd c \<in> set (http_q_pending s)")
    case True
    with assms e have "forward_reply (s\<lparr>tokens := ts\<rparr>) c = (s', cs)"
      by (auto simp: pop_completion_def split: if_splits)
    with True show ?thesis by (auto simp: forward_reply_def Let_def)
  next
    case False
    let ?s1 = "s\<lparr>tokens := ts, num_rcvd := num_rcvd s + 1\<rparr>"
    from False assms e
    have "(split a \<and> forward_request a hw ?s1 c = Inr (s', cs)) \<or>
          (\<not> split a \<and> serve_request X ?s1 c = Inr (s', cs))"
      by (auto simp: pop_completion_def Let_def split: if_splits)
    then have "num_rcvd s' = num_rcvd ?s1"
      using forward_request_num_rcvd [of a hw ?s1 c s' cs]
            serve_request_num_rcvd [of X ?s1 c s' cs]
      by blast
    with False show ?thesis by simp
  qed
qed

lemma tcp_work_step_num_rcvd:
  assumes "tcp_work_step X a hw s c = Inr (s', cs)"
  shows "num_rcvd s' = num_rcvd s + (if is_request s c then 1 else 0)"
proof -
  from assms obtain cs0 where
    r: "(if status c = 0 then
              (if qr_qd c = lqd s then accept_connection s c
               else pop_completion X a hw s c)
            else failed_completion s c) = Inr (s', cs0)"
    by (auto simp: tcp_work_step_def split: sum.splits)
  consider (failed) "status c \<noteq> 0" | (accept) "status c = 0" "qr_qd c = lqd s"
    | (pop) "status c = 0" "qr_qd c \<noteq> lqd s"
    by blast
  then show ?thesis
  proof cases
    case failed
    with r have "num_rcvd s' = num_rcvd s"
      by (auto simp: failed_completion_def split: sum.splits if_splits)
    with failed show ?thesis by (simp add: is_request_def)
  next
    case accept
    with r have "num_rcvd s' = num_rcvd s"
      by (auto simp: accept_connection_def Let_def split: sum.splits if_splits)
    with accept show ?thesis by (simp add: is_request_def)
  next
    case pop
    with r have "pop_completion X a hw s c = Inr (s', cs0)" by simp
    from pop_completion_num_rcvd [OF this] pop show ?thesis
      by (simp add: is_request_def)
  qed
qed

lemma tcp_work_loop_num_rcvd:
  "tcp_work_loop X a hw s cs = Inr (s', calls) \<Longrightarrow>
   num_rcvd s' = num_rcvd s + int (requests_received X a hw s cs)"
proof (induction cs arbitrary: s calls)
  case Nil
  then show ?case by simp
next
  case (Cons c cs)
  from Cons.prems obtain s1 cs1 calls' where
    st: "tcp_work_step X a hw s c = Inr (s1, cs1)"
    and lp: "tcp_work_loop X a hw s1 cs = Inr (s', calls')"
    by (auto split: sum.splits)
  from tcp_work_step_num_rcvd [OF st] Cons.IH [OF lp] show ?case
    by (simp add: st)
qed

lemma round_robin_index:
  assumes "0 < n" and "n < 2 ^ 31" and "k < 2 ^ 31"
  shows "int_of_size_t (size_t_of_int (int k) mod int n) = int (k mod n)"
proof -
  from assms(3) have "int k < 2 ^ 31" by (metis of_nat_less_numeral_power_cancel_iff)
  then have "int k < 2 ^ 64" by simp
  then have a: "size_t_of_int (int k) = int k" by (simp add: size_t_of_int_def)
  have b: "int k mod int n = int (k mod n)" by (simp add: zmod_int)
  have "k mod n < n" using assms(1) by simp
  with assms(2) have "k mod n < 2 ^ 31" by simp
  then have c: "int (k mod n) < 2 ^ 31" by (metis of_nat_less_numeral_power_cancel_iff)
  then have "int (k mod n) < 2 ^ 32" by simp
  with c show ?thesis by (simp add: a b int_of_size_t_def)
qed

text \<open>
  C8. Under round robin in split mode, with \<open>N\<close> compute workers (\<open>0 < N < 2^31\<close>), when
  the connection worker has run from its setup over completions of which \<open>k - 1\<close> were
  new requests, the next new request, the \<open>k\<close>-th (\<open>k < 2^31\<close>, the range of the
  \<^verbatim>\<open>int\<close> counter), is pushed to the input queue of compute worker \<open>k mod N\<close>, and the worker
  then pops from that compute worker's output queue.
\<close>

theorem round_robin_kth_request:
  assumes run: "tcp_work_loop X a hw (fst (tcp_work_setup a q)) cs = Inr (s, calls)"
      and k: "k = Suc (requests_received X a hw (fst (tcp_work_setup a q)) cs)"
      and mode: "split a" "tcp_filter a = RR"
      and new: "is_request s c" "qr_opcode c = DMTR_OPC_POP" "sga_numsegs (qr_sga c) \<le> 2"
               "0 \<le> idx c" "idx c < int (length (tokens s))"
      and bounds: "0 < length hw" "length hw < 2 ^ 31" "k < 2 ^ 31"
  shows "\<exists>s' t t' g. tcp_work_step X a hw s c =
           Inr (s', [DmtrWaitAny (tokens s),
                     DmtrPush t (in_qfd (hw ! (k mod length hw))) g, DmtrWait t,
                     DmtrPop t' (out_qfd (hw ! (k mod length hw)))])"
proof -
  have "num_rcvd (fst (tcp_work_setup a q)) = 0"
    by (simp add: tcp_work_setup_def Let_def)
  with tcp_work_loop_num_rcvd [OF run] k have n: "num_rcvd s + 1 = int k" by simp
  from bounds(3) have "int k < 2 ^ 31" by (metis of_nat_less_numeral_power_cancel_iff)
  with n have nm: "num_rcvd s \<noteq> INT_MAX" by (simp add: INT_MAX_def)
  have i: "int_of_size_t (size_t_of_int (int k) mod int (length hw)) = int (k mod length hw)"
    using bounds by (rule round_robin_index)
  have lt: "k mod length hw < length hw" using bounds(1) by simp
  show ?thesis
    using mode new nm n i lt bounds(1)
    by (simp add: tcp_work_step_def pop_completion_def forward_request_def choose_worker_def
                  worker_at_def erase_at_def is_request_def Let_def)
qed

text \<open>
  The theorem with three compute workers: three connections are accepted, two of them send
  a request, and the third request goes to compute worker \<open>3 mod 3 = 0\<close> (queues 100 and
  101).
\<close>

theorem round_robin_kth_request_witness:
  "requests_received sample_ext (sample_args RR True) sample_workers
     (fst (tcp_work_setup (sample_args RR True) 5))
     [accepted 5 7 0 0, accepted 5 8 0 1, accepted 5 9 0 2,
      popped 7 sample_request 0, popped 8 sample_request 0] = 2 \<and>
   (\<exists>s' t t' g.
      tcp_work_step sample_ext (sample_args RR True) sample_workers
        \<lparr>tokens = [Token 5 DMTR_OPC_POP 9, Token 6 DMTR_OPC_ACCEPT 5, Token 8 DMTR_OPC_POP 103,
                   Token 10 DMTR_OPC_POP 105],
         http_q_pending = [103, 105], num_rcvd = 2, lqd = 5, issued = 11\<rparr>
        (popped 9 sample_request 0) =
      Inr (s', [DmtrWaitAny [Token 5 DMTR_OPC_POP 9, Token 6 DMTR_OPC_ACCEPT 5,
                             Token 8 DMTR_OPC_POP 103, Token 10 DMTR_OPC_POP 105],
                DmtrPush t 100 g, DmtrWait t, DmtrPop t' 101]))"
proof -
  let ?a = "sample_args RR True"
  let ?s0 = "fst (tcp_work_setup ?a 5)"
  let ?s1 = "\<lparr>tokens = [Token 1 DMTR_OPC_POP 7, Token 2 DMTR_OPC_ACCEPT 5],
              http_q_pending = [], num_rcvd = 0, lqd = 5, issued = 3\<rparr>"
  let ?s2 = "\<lparr>tokens = [Token 1 DMTR_OPC_POP 7, Token 3 DMTR_OPC_POP 8, Token 4 DMTR_OPC_ACCEPT 5],
              http_q_pending = [], num_rcvd = 0, lqd = 5, issued = 5\<rparr>"
  let ?s3 = "\<lparr>tokens = [Token 1 DMTR_OPC_POP 7, Token 3 DMTR_OPC_POP 8, Token 5 DMTR_OPC_POP 9,
                        Token 6 DMTR_OPC_ACCEPT 5],
              http_q_pending = [], num_rcvd = 0, lqd = 5, issued = 7\<rparr>"
  let ?s4 = "\<lparr>tokens = [Token 3 DMTR_OPC_POP 8, Token 5 DMTR_OPC_POP 9, Token 6 DMTR_OPC_ACCEPT 5,
                        Token 8 DMTR_OPC_POP 103],
              http_q_pending = [103], num_rcvd = 1, lqd = 5, issued = 9\<rparr>"
  let ?s5 = "\<lparr>tokens = [Token 5 DMTR_OPC_POP 9, Token 6 DMTR_OPC_ACCEPT 5, Token 8 DMTR_OPC_POP 103,
                        Token 10 DMTR_OPC_POP 105],
              http_q_pending = [103, 105], num_rcvd = 2, lqd = 5, issued = 11\<rparr>"
  let ?c1 = "accepted 5 7 0 0" and ?c2 = "accepted 5 8 0 1" and ?c3 = "accepted 5 9 0 2"
  let ?c4 = "popped 7 sample_request 0" and ?c5 = "popped 8 sample_request 0"
  let ?c = "popped 9 sample_request 0"
  have s0: "?s0 = \<lparr>tokens = [Token 0 DMTR_OPC_ACCEPT 5], http_q_pending = [], num_rcvd = 0,
                   lqd = 5, issued = 1\<rparr>"
    by (simp add: tcp_work_setup_def Let_def)
  obtain cs1 where 1: "tcp_work_step sample_ext ?a sample_workers ?s0 ?c1 = Inr (?s1, cs1)"
    by (simp only: s0) (simp add: tcp_step_defs sample_defs)
  obtain cs2 where 2: "tcp_work_step sample_ext ?a sample_workers ?s1 ?c2 = Inr (?s2, cs2)"
    by (simp add: tcp_step_defs sample_defs)
  obtain cs3 where 3: "tcp_work_step sample_ext ?a sample_workers ?s2 ?c3 = Inr (?s3, cs3)"
    by (simp add: tcp_step_defs sample_defs)
  obtain cs4 where 4: "tcp_work_step sample_ext ?a sample_workers ?s3 ?c4 = Inr (?s4, cs4)"
    by (simp add: tcp_step_defs sample_defs)
  obtain cs5 where 5: "tcp_work_step sample_ext ?a sample_workers ?s4 ?c5 = Inr (?s5, cs5)"
    by (simp add: tcp_step_defs sample_defs)
  have r1: "\<not> is_request ?s0 ?c1" and r2: "\<not> is_request ?s1 ?c2" and r3: "\<not> is_request ?s2 ?c3"
    by (simp_all add: is_request_def accepted_def s0)
  have r4: "is_request ?s3 ?c4" and r5: "is_request ?s4 ?c5" and new: "is_request ?s5 ?c"
    by (simp_all add: is_request_def popped_def)
  have run: "tcp_work_loop sample_ext ?a sample_workers ?s0 [?c1, ?c2, ?c3, ?c4, ?c5] =
             Inr (?s5, cs1 @ cs2 @ cs3 @ cs4 @ cs5 @ [])"
    by (simp only: tcp_work_loop.simps 1 2 3 4 5 sum.case prod.case)
  have cnt: "requests_received sample_ext ?a sample_workers ?s0 [?c1, ?c2, ?c3, ?c4, ?c5] = 2"
    by (simp only: requests_received.simps 1 2 3 4 5 r1 r2 r3 r4 r5 sum.case prod.case if_True
                   if_False)
  have k: "3 = Suc (requests_received sample_ext ?a sample_workers ?s0 [?c1, ?c2, ?c3, ?c4, ?c5])"
    by (simp only: cnt)
  have mode: "split ?a" "tcp_filter ?a = RR" by (simp_all add: sample_args_def)
  have c: "qr_opcode ?c = DMTR_OPC_POP" "sga_numsegs (qr_sga ?c) \<le> 2" "0 \<le> idx ?c"
    "idx ?c < int (length (tokens ?s5))"
    by (simp_all add: popped_def)
  have b: "0 < length sample_workers" "length sample_workers < 2 ^ 31" "(3::nat) < 2 ^ 31"
    by (simp_all add: sample_workers_def)
  have w: "in_qfd (sample_workers ! (3 mod length sample_workers)) = 100"
          "out_qfd (sample_workers ! (3 mod length sample_workers)) = 101"
    by (simp_all add: sample_workers_def)
  from round_robin_kth_request [OF run k mode new c b]
  have "\<exists>s' t t' g. tcp_work_step sample_ext ?a sample_workers ?s5 ?c =
      Inr (s', [DmtrWaitAny (tokens ?s5), DmtrPush t 100 g, DmtrWait t, DmtrPop t' 101])"
    by (simp only: w)
  then have "\<exists>s' t t' g. tcp_work_step sample_ext ?a sample_workers ?s5 ?c =
      Inr (s', [DmtrWaitAny [Token 5 DMTR_OPC_POP 9, Token 6 DMTR_OPC_ACCEPT 5,
                             Token 8 DMTR_OPC_POP 103, Token 10 DMTR_OPC_POP 105],
                DmtrPush t 100 g, DmtrWait t, DmtrPop t' 101])"
    by (simp only: tcp_state.simps)
  with cnt show ?thesis by (intro conjI)
qed

subsection \<open>The request buffer\<close>

text \<open>
  C9, at a request the parser finds incomplete: neither the connection worker in joined
  mode nor the compute worker frees the request buffer (at address 500).
\<close>

theorem incomplete_request_not_freed:
  "tcp_work_step sample_ext (sample_args ONE_TO_ONE False) [] sample_state
     (popped 7 ''GET /a'' 0) =
   Inr (\<lparr>tokens = [Token 2 DMTR_OPC_ACCEPT 5], http_q_pending = [], num_rcvd = 1, lqd = 5,
          issued = 3\<rparr>,
        [DmtrWaitAny [Token 1 DMTR_OPC_POP 7, Token 2 DMTR_OPC_ACCEPT 5], CleanState]) \<and>
   http_work_step sample_ext \<lparr>in_qfd = 100, out_qfd = 101, me = 1\<rparr> 0 0
     (queued 100 ((qr_sga (popped 7 ''GET /a'' 0))\<lparr>sga_numsegs := 2\<rparr>)) =
   Inr (1, [DmtrPop (Token 0 DMTR_OPC_POP 100) 100, DmtrWait (Token 0 DMTR_OPC_POP 100),
            CleanState])"
  by (simp add: tcp_step_defs sample_defs http_work_step_def)

section \<open>Supporting facts\<close>


text \<open>
  Under the one-to-one policy in split mode, a connection worker whose \<^verbatim>\<open>whoami\<close> is not
  below the number of compute workers indexes \<^verbatim>\<open>http_workers\<close> out of range at its first
  request.
\<close>

lemma one_to_one_index_out_of_range:
  assumes "split a" and "tcp_filter a = ONE_TO_ONE" and "int (length hw) \<le> uint (whoami a)"
      and "is_request s c" and "qr_opcode c = DMTR_OPC_POP" and "sga_numsegs (qr_sga c) \<le> 2"
      and "0 \<le> idx c" and "idx c < int (length (tokens s))" and "num_rcvd s \<noteq> INT_MAX"
  shows "tcp_work_step X a hw s c = Inl OutOfRange"
  using assms
  by (simp add: tcp_work_step_def pop_completion_def forward_request_def choose_worker_def
                worker_at_def erase_at_def is_request_def Let_def)

text \<open>
  \<^verbatim>\<open>work_setup\<close> accepts two connection workers with one compute worker in split mode;
  the second connection worker then fails in this way.
\<close>

lemma one_to_one_accepted_then_out_of_range:
  "fst (work_setup sample_ext 2 1 True setup_init) = Returned 1 \<and>
   http_workers (snd (work_setup sample_ext 2 1 True setup_init)) =
     [\<lparr>in_qfd = 100, out_qfd = 101, me = 2\<rparr>] \<and>
   tcp_work_step sample_ext (tcp_args_of sample_ext True 0 1)
     [\<lparr>in_qfd = 100, out_qfd = 101, me = 2\<rparr>] sample_state (popped 7 sample_request 0) =
   Inl OutOfRange"
  by (simp add: work_setup_def setup_init_def create_tcp_workers.simps create_http_workers.simps
                tcp_args_of_def tcp_step_defs sample_defs)

text \<open>
  In joined mode, a request the parser rejects leaves the token set without the token just
  removed, submits no pop, and frees the request buffer only; a request the parser finds
  incomplete frees nothing, in the connection worker as in the compute worker.
\<close>

lemma joined_request:
  assumes "tcp_work_step X a hw s c = Inr (s', calls)" and "\<not> split a" and "is_request s c"
      and "erase_at (tokens s) (idx c) = Inr ts"
  shows "\<exists>cs. serve_request X (s\<lparr>tokens := ts, num_rcvd := num_rcvd s + 1\<rparr>) c = Inr (s', cs) \<and>
              calls = DmtrWaitAny (tokens s) # cs"
  using assms
  by (auto simp: tcp_work_step_def pop_completion_def is_request_def Let_def
           split: sum.splits if_splits)

lemma joined_parse_error:
  assumes "tcp_work_step X a hw s c = Inr (s', calls)" and "\<not> split a" and "is_request s c"
      and "erase_at (tokens s) (idx c) = Inr ts"
      and "parse_http X (sgaseg_buf (sga_segs0 (qr_sga c)))
             (unat (sgaseg_len (sga_segs0 (qr_sga c)))) = (REQ_ERROR, url)"
  shows "tokens s' = ts \<and> pops_submitted calls = [] \<and> frees calls = [sga_buf (qr_sga c)]"
proof -
  from joined_request [OF assms(1-4)] obtain cs where
    "serve_request X (s\<lparr>tokens := ts, num_rcvd := num_rcvd s + 1\<rparr>) c = Inr (s', cs)"
    and "calls = DmtrWaitAny (tokens s) # cs"
    by blast
  with assms(5) show ?thesis
    by (auto simp: serve_request_def Let_def split: sum.splits)
qed

lemma incomplete_request:
  assumes "tcp_work_step X a hw s c = Inr (s', calls)" and "\<not> split a" and "is_request s c"
      and "erase_at (tokens s) (idx c) = Inr ts"
      and "parse_http X (sgaseg_buf (sga_segs0 (qr_sga c)))
             (unat (sgaseg_len (sga_segs0 (qr_sga c)))) = (REQ_INCOMPLETE, url)"
  shows "tokens s' = ts \<and> pops_submitted calls = [] \<and> frees calls = []"
proof -
  from joined_request [OF assms(1-4)] obtain cs where
    "serve_request X (s\<lparr>tokens := ts, num_rcvd := num_rcvd s + 1\<rparr>) c = Inr (s', cs)"
    and "calls = DmtrWaitAny (tokens s) # cs"
    by blast
  with assms(5) show ?thesis
    by (auto simp: serve_request_def Let_def)
qed

lemma compute_worker_incomplete_request:
  assumes "http_work_step X w n 0 r = Inr (n', calls)"
      and "parse_http X (sgaseg_buf (sga_segs0 (qr_sga r)))
             (unat (sgaseg_len (sga_segs0 (qr_sga r)))) = (REQ_INCOMPLETE, url)"
  shows "frees calls = [] \<and> pushes calls = []"
  using assms
  by (auto simp: http_work_step_def Let_def split: if_splits)

end
